theory Spec2Isabelle
  imports Complex_Main "HOL-Library.Multiset"
begin

section \<open>JavaScript numbers\<close>

text \<open>
  The viewers are JavaScript; every numeric value they compute is a Number, an IEEE 754
  double. A Number is modelled as the not-a-number value, one of the two infinities, or
  a finite value, given by the rational it denotes. Every arithmetic operation and every
  conversion from text computes the exact rational result and rounds it to the nearest
  double (\<open>toDouble\<close>), as the language does. The sign of zero is not modelled; no
  operation of the viewers can observe it.
\<close>

datatype jsnum = NaN | PInf | NInf | Fin rat

fun isNaN :: "jsnum \<Rightarrow> bool" where
  "isNaN NaN = True"
| "isNaN _ = False"

fun jsneg :: "jsnum \<Rightarrow> jsnum" where
  "jsneg NaN = NaN"
| "jsneg PInf = NInf"
| "jsneg NInf = PInf"
| "jsneg (Fin a) = Fin (- a)"

text \<open>
  Rounding to the nearest double. A positive \<open>x\<close> with
  \<open>2^e \<le> x < 2^(e+1)\<close> lies between multiples of the quantum \<open>2^(e-52)\<close>, or
  of \<open>2^(-1074)\<close> in the subnormal range \<open>e < -1022\<close>; it is rounded to the nearest
  multiple, to the even one on a tie, and to infinity when the result reaches
  \<open>2^1024\<close>. \<open>bitLength n\<close> is the number of binary digits of \<open>n\<close>.
\<close>

fun bitLength :: "nat \<Rightarrow> nat" where
  "bitLength n = (if n = 0 then 0 else Suc (bitLength (n div 2)))"

declare bitLength.simps [simp del]

definition pow2 :: "int \<Rightarrow> rat" where
  "pow2 k = (if 0 \<le> k then 2 ^ nat k else 1 / 2 ^ nat (- k))"

definition binaryExponent :: "rat \<Rightarrow> int" where
  "binaryExponent x =
     (let e = (if 1 \<le> x then int (bitLength (nat \<lfloor>x\<rfloor>)) - 1
               else - int (bitLength (nat \<lfloor>1 / x\<rfloor>)))
      in if pow2 (e + 1) \<le> x then e + 1 else e)"

definition roundHalfEven :: "rat \<Rightarrow> int" where
  "roundHalfEven y =
     (let n = \<lfloor>y\<rfloor>; r = y - of_int n
      in if r < 1 / 2 then n
         else if 1 / 2 < r then n + 1
         else if even n then n else n + 1)"

definition quantum :: "rat \<Rightarrow> rat" where
  "quantum x = pow2 (max (binaryExponent x) (- 1022) - 52)"

definition roundPositive :: "rat \<Rightarrow> jsnum" where
  "roundPositive x =
     (let v = of_int (roundHalfEven (x / quantum x)) * quantum x
      in if 2 ^ 1024 \<le> v then PInf else Fin v)"

definition toDouble :: "rat \<Rightarrow> jsnum" where
  "toDouble x =
     (if x = 0 then Fin 0
      else if x < 0 then jsneg (roundPositive (- x))
      else roundPositive x)"

text \<open>The operator \<open>+\<close> on two Numbers.\<close>

fun jsadd :: "jsnum \<Rightarrow> jsnum \<Rightarrow> jsnum" where
  "jsadd NaN _ = NaN"
| "jsadd _ NaN = NaN"
| "jsadd PInf NInf = NaN"
| "jsadd NInf PInf = NaN"
| "jsadd PInf _ = PInf"
| "jsadd NInf _ = NInf"
| "jsadd _ PInf = PInf"
| "jsadd _ NInf = NInf"
| "jsadd (Fin a) (Fin b) = toDouble (a + b)"

definition jssub :: "jsnum \<Rightarrow> jsnum \<Rightarrow> jsnum" where
  "jssub a b = jsadd a (jsneg b)"

text \<open>The comparison \<open>x > 0\<close>: false for not-a-number.\<close>

fun jsgt0 :: "jsnum \<Rightarrow> bool" where
  "jsgt0 NaN = False"
| "jsgt0 PInf = True"
| "jsgt0 NInf = False"
| "jsgt0 (Fin a) = (0 < a)"

text \<open>The operators \<open>*\<close> and \<open>/\<close>. Division by zero is not a fault in JavaScript:
  it yields an infinity, and \<open>0 / 0\<close> yields not-a-number.\<close>

fun jssign :: "jsnum \<Rightarrow> int" where
  "jssign NaN = 0"
| "jssign PInf = 1"
| "jssign NInf = - 1"
| "jssign (Fin a) = (if a < 0 then - 1 else if a = 0 then 0 else 1)"

definition jsinf :: "int \<Rightarrow> jsnum" where
  "jsinf s = (if s < 0 then NInf else PInf)"

fun jsmul :: "jsnum \<Rightarrow> jsnum \<Rightarrow> jsnum" where
  "jsmul NaN _ = NaN"
| "jsmul _ NaN = NaN"
| "jsmul (Fin a) (Fin b) = toDouble (a * b)"
| "jsmul x y = (if jssign x * jssign y = 0 then NaN else jsinf (jssign x * jssign y))"

fun jsdiv :: "jsnum \<Rightarrow> jsnum \<Rightarrow> jsnum" where
  "jsdiv NaN _ = NaN"
| "jsdiv _ NaN = NaN"
| "jsdiv (Fin a) (Fin b) =
     (if b = 0 then (if a = 0 then NaN else if 0 < a then PInf else NInf)
      else toDouble (a / b))"
| "jsdiv (Fin a) _ = Fin 0"
| "jsdiv x (Fin b) = (if b < 0 then jsneg x else x)"
| "jsdiv _ _ = NaN"

section \<open>Text to number: \<open>Number\<close>, \<open>parseFloat\<close>, \<open>parseInt\<close>\<close>

text \<open>
  The three coercions of the language that the viewers call, following the grammar of
  ECMA-262 (StringToNumber, parseFloat, parseInt with radix 10) on ASCII text. As in the
  standard, each first computes the mathematical value the text denotes (the functions
  whose names end in \<open>MV\<close>, and the functions of the grammar they call), and then
  rounds it to a double, correctly, as the engines do for a numeral of any length.
\<close>

definition roundMV :: "jsnum \<Rightarrow> jsnum" where
  "roundMV v = (case v of Fin x \<Rightarrow> toDouble x | _ \<Rightarrow> v)"

definition isWhiteSpace :: "char \<Rightarrow> bool" where
  "isWhiteSpace c = (c \<in> set [CHR 0x09, CHR 0x0A, CHR 0x0B, CHR 0x0C, CHR 0x0D, CHR 0x20])"

definition isDigit :: "char \<Rightarrow> bool" where
  "isDigit c = (c \<in> set ''0123456789'')"

definition digitVal :: "char \<Rightarrow> nat" where
  "digitVal c = of_char c - 48"

definition decVal :: "string \<Rightarrow> nat" where
  "decVal s = foldl (\<lambda>a c. 10 * a + digitVal c) 0 s"

definition isHexDigit :: "char \<Rightarrow> bool" where
  "isHexDigit c = (c \<in> set ''0123456789abcdefABCDEF'')"

definition hexVal :: "char \<Rightarrow> nat" where
  "hexVal c = (if isDigit c then of_char c - 48
               else if c \<in> set ''abcdef'' then of_char c - 87 else of_char c - 55)"

definition radixVal :: "nat \<Rightarrow> string \<Rightarrow> nat" where
  "radixVal b s = foldl (\<lambda>a c. b * a + hexVal c) 0 s"

definition isRadixDigits :: "nat \<Rightarrow> string \<Rightarrow> bool" where
  "isRadixDigits b s = (s \<noteq> [] \<and> list_all (\<lambda>c. isHexDigit c \<and> hexVal c < b) s)"

definition pow10 :: "int \<Rightarrow> rat" where
  "pow10 e = (if 0 \<le> e then 10 ^ nat e else 1 / 10 ^ nat (- e))"

definition trim :: "string \<Rightarrow> string" where
  "trim s = rev (dropWhile isWhiteSpace (rev (dropWhile isWhiteSpace s)))"

definition digitsInt :: "string \<Rightarrow> int option" where
  "digitsInt s = (if s \<noteq> [] \<and> list_all isDigit s then Some (int (decVal s)) else None)"

definition signedInteger :: "string \<Rightarrow> int option" where
  "signedInteger s =
     (case s of
        [] \<Rightarrow> None
      | c # cs \<Rightarrow>
          if c = CHR ''+'' then digitsInt cs
          else if c = CHR ''-'' then map_option uminus (digitsInt cs)
          else digitsInt s)"

definition exponentPart :: "string \<Rightarrow> int option" where
  "exponentPart s =
     (case s of
        [] \<Rightarrow> Some 0
      | c # cs \<Rightarrow> if c = CHR ''e'' \<or> c = CHR ''E'' then signedInteger cs else None)"

text \<open>The digits after a decimal point, and what follows them.\<close>

definition fracDigits :: "string \<Rightarrow> string" where
  "fracDigits r = (case r of [] \<Rightarrow> [] | c # t \<Rightarrow> if c = CHR ''.'' then takeWhile isDigit t else [])"

definition afterFrac :: "string \<Rightarrow> string" where
  "afterFrac r = (case r of [] \<Rightarrow> [] | c # t \<Rightarrow> if c = CHR ''.'' then dropWhile isDigit t else r)"

definition mantissa :: "string \<Rightarrow> string \<Rightarrow> rat" where
  "mantissa ip fp = of_nat (decVal ip) + of_nat (decVal fp) / 10 ^ length fp"

definition strUnsignedDecimalLiteral :: "string \<Rightarrow> jsnum" where
  "strUnsignedDecimalLiteral s =
     (if s = ''Infinity'' then PInf
      else
        let ip = takeWhile isDigit s;
            r = dropWhile isDigit s;
            fp = fracDigits r
        in if ip = [] \<and> fp = [] then NaN
           else case exponentPart (afterFrac r) of
                  None \<Rightarrow> NaN
                | Some e \<Rightarrow> Fin (mantissa ip fp * pow10 e))"

definition strDecimalLiteral :: "string \<Rightarrow> jsnum" where
  "strDecimalLiteral s =
     (case s of
        [] \<Rightarrow> NaN
      | c # cs \<Rightarrow>
          if c = CHR ''+'' then strUnsignedDecimalLiteral cs
          else if c = CHR ''-'' then jsneg (strUnsignedDecimalLiteral cs)
          else strUnsignedDecimalLiteral s)"

definition nonDecimalIntegerLiteral :: "string \<Rightarrow> nat option" where
  "nonDecimalIntegerLiteral s =
     (case s of
        c0 # c1 # ds \<Rightarrow>
          if c0 \<noteq> CHR ''0'' then None
          else if (c1 = CHR ''x'' \<or> c1 = CHR ''X'') \<and> isRadixDigits 16 ds then Some (radixVal 16 ds)
          else if (c1 = CHR ''o'' \<or> c1 = CHR ''O'') \<and> isRadixDigits 8 ds then Some (radixVal 8 ds)
          else if (c1 = CHR ''b'' \<or> c1 = CHR ''B'') \<and> isRadixDigits 2 ds then Some (radixVal 2 ds)
          else None
      | _ \<Rightarrow> None)"

definition StringNumericLiteralMV :: "string \<Rightarrow> jsnum" where
  "StringNumericLiteralMV s =
     (let t = trim s
      in if t = [] then Fin 0
         else case nonDecimalIntegerLiteral t of
                Some n \<Rightarrow> Fin (of_nat n)
              | None \<Rightarrow> strDecimalLiteral t)"

definition StringToNumber :: "string \<Rightarrow> jsnum" where
  "StringToNumber s = roundMV (StringNumericLiteralMV s)"

text \<open>
  A field of a parsed row is a string, or \<open>undefined\<close> (\<open>None\<close>) when the row has no
  such column. \<open>Number(undefined)\<close> is not-a-number.
\<close>

definition Number :: "string option \<Rightarrow> jsnum" where
  "Number v = (case v of None \<Rightarrow> NaN | Some s \<Rightarrow> StringToNumber s)"

text \<open>\<open>parseFloat\<close> reads the longest prefix that is a decimal literal and ignores the rest.\<close>

definition pfDigits :: "string \<Rightarrow> int" where
  "pfDigits s = (let ds = takeWhile isDigit s in int (decVal ds))"

definition pfExponent :: "string \<Rightarrow> int" where
  "pfExponent s =
     (case s of
        [] \<Rightarrow> 0
      | c # cs \<Rightarrow>
          if c = CHR ''e'' \<or> c = CHR ''E'' then
            (case cs of
               [] \<Rightarrow> 0
             | d # ds \<Rightarrow>
                 if d = CHR ''+'' then pfDigits ds
                 else if d = CHR ''-'' then - pfDigits ds
                 else pfDigits cs)
          else 0)"

definition pfUnsigned :: "string \<Rightarrow> jsnum" where
  "pfUnsigned s =
     (if take 8 s = ''Infinity'' then PInf
      else
        let ip = takeWhile isDigit s;
            r = dropWhile isDigit s;
            fp = fracDigits r
        in if ip = [] \<and> fp = [] then NaN
           else Fin (mantissa ip fp * pow10 (pfExponent (afterFrac r))))"

definition parseFloatMV :: "string \<Rightarrow> jsnum" where
  "parseFloatMV s =
     (let t = dropWhile isWhiteSpace s
      in case t of
           [] \<Rightarrow> NaN
         | c # cs \<Rightarrow>
             if c = CHR ''+'' then pfUnsigned cs
             else if c = CHR ''-'' then jsneg (pfUnsigned cs)
             else pfUnsigned t)"

definition parseFloat :: "string \<Rightarrow> jsnum" where
  "parseFloat s = roundMV (parseFloatMV s)"

text \<open>\<open>parseInt(s, 10)\<close>: optional sign, then the longest run of decimal digits.\<close>

definition parseInt10MV :: "string \<Rightarrow> jsnum" where
  "parseInt10MV s =
     (let t = dropWhile isWhiteSpace s;
          neg = (case t of [] \<Rightarrow> False | c # cs \<Rightarrow> c = CHR ''-'');
          u = (case t of [] \<Rightarrow> [] | c # cs \<Rightarrow> if c = CHR ''-'' \<or> c = CHR ''+'' then cs else t);
          ds = takeWhile isDigit u
      in if ds = [] then NaN
         else if neg then Fin (- of_nat (decVal ds)) else Fin (of_nat (decVal ds)))"

definition parseInt10 :: "string \<Rightarrow> jsnum" where
  "parseInt10 s = roundMV (parseInt10MV s)"

section \<open>Number to text: \<open>toFixed\<close>\<close>

text \<open>
  \<open>x.toFixed(f)\<close> is a string. For a finite \<open>x\<close> below \<open>10^21\<close> in magnitude it is the
  decimal numeral of the integer \<open>n\<close> nearest to \<open>|x| * 10^f\<close> (the larger one on a tie),
  with a point before its last \<open>f\<close> digits and a minus sign when \<open>x < 0\<close>. From
  \<open>10^21\<close> on the language returns the general rendering of the number, which is kept
  symbolic here (\<open>NumberToString\<close>); converting that rendering back yields the number.
  The value \<open>x\<close> of a double is exact, so the digits are those of the exact value.
\<close>

datatype jstext = Lit string | NumberToString rat

definition digitChar :: "nat \<Rightarrow> char" where
  "digitChar n = ''0123456789'' ! n"

fun digitsOf :: "nat \<Rightarrow> string" where
  "digitsOf n =
     (if n < 10 then [digitChar n]
      else digitsOf (n div 10) @ [digitChar (n mod 10)])"

declare digitsOf.simps [simp del]

definition fixedDigits :: "nat \<Rightarrow> rat \<Rightarrow> string" where
  "fixedDigits f x =
     (let n = nat \<lfloor>x * 10 ^ f + 1 / 2\<rfloor>;
          m = digitsOf n
      in if f \<noteq> 0 then
           (let m' = (if length m \<le> f then replicate (f + 1 - length m) (CHR ''0'') @ m else m);
                k = length m'
            in take (k - f) m' @ ''.'' @ drop (k - f) m')
         else m)"

definition toFixed :: "nat \<Rightarrow> jsnum \<Rightarrow> jstext" where
  "toFixed f v =
     (case v of
        NaN \<Rightarrow> Lit ''NaN''
      | PInf \<Rightarrow> Lit ''Infinity''
      | NInf \<Rightarrow> Lit ''-Infinity''
      | Fin x \<Rightarrow>
          if 10 ^ 21 \<le> \<bar>x\<bar> then NumberToString x
          else if x < 0 then Lit (''-'' @ fixedDigits f (- x))
          else Lit (fixedDigits f x))"

definition NumberOfText :: "jstext \<Rightarrow> jsnum" where
  "NumberOfText t = (case t of Lit s \<Rightarrow> StringToNumber s | NumberToString x \<Rightarrow> Fin x)"

section \<open>Arrays\<close>

text \<open>
  \<open>xs[i]\<close> is \<open>undefined\<close> (\<open>None\<close>) outside the array.
\<close>

definition arrayGet :: "'a list \<Rightarrow> int \<Rightarrow> 'a option" where
  "arrayGet xs i = (if 0 \<le> i \<and> i < int (length xs) then Some (xs ! nat i) else None)"

text \<open>
  \<open>xs.sort(cmp)\<close> is a stable sort: \<open>y\<close> is moved before \<open>x\<close> only when
  \<open>cmp(x, y) > 0\<close>. For a comparison function that is a consistent order the language
  fixes the result; it is computed here by inserting each element, from the right, before
  the first element it is not greater than.
\<close>

fun insertBy :: "('a \<Rightarrow> 'a \<Rightarrow> jsnum) \<Rightarrow> 'a \<Rightarrow> 'a list \<Rightarrow> 'a list" where
  "insertBy cmp x [] = [x]"
| "insertBy cmp x (y # ys) =
     (if jsgt0 (cmp x y) then y # insertBy cmp x ys else x # y # ys)"

definition arraySort :: "('a \<Rightarrow> 'a \<Rightarrow> jsnum) \<Rightarrow> 'a list \<Rightarrow> 'a list" where
  "arraySort cmp xs = foldr (insertBy cmp) xs []"

section \<open>The candlestick viewer: \<open>parseCSV\<close> and the initial window\<close>

text \<open>
  A row of the parsed document maps column names to text. A \<open>Date\<close> object holds a
  time value in milliseconds, or is invalid. How text becomes a \<open>Date\<close> depends on
  the engine for all but the ISO formats, so \<open>new Date(text)\<close> is a parameter
  \<open>newDate\<close> of the model.
\<close>

type_synonym rawRow = "string \<Rightarrow> string option"

datatype jsdate = InvalidDate | ValidDate int

fun getTime :: "jsdate \<Rightarrow> jsnum" where
  "getTime InvalidDate = NaN"
| "getTime (ValidDate t) = Fin (of_int t)"

text \<open>The field \<open>open'\<close> is the source's \<open>open\<close>, a reserved word here.\<close>

record ohlcv =
  date :: "jsdate option"
  open' :: jsnum
  high :: jsnum
  low :: jsnum
  close :: jsnum
  volume :: jsnum

text \<open>\<open>d.X ? f(d.X) : NaN\<close>: a missing or empty field is falsy.\<close>

definition whenPresent :: "(string \<Rightarrow> jsnum) \<Rightarrow> string option \<Rightarrow> jsnum" where
  "whenPresent f v = (case v of None \<Rightarrow> NaN | Some s \<Rightarrow> if s \<noteq> [] then f s else NaN)"

definition ohlcvOfRow :: "(string \<Rightarrow> jsdate) \<Rightarrow> rawRow \<Rightarrow> ohlcv" where
  "ohlcvOfRow newDate d =
     \<lparr> date = (case d ''Date'' of
                 None \<Rightarrow> None
               | Some s \<Rightarrow> if s \<noteq> [] then Some (newDate s) else None),
       open' = whenPresent parseFloat (d ''Open''),
       high = whenPresent parseFloat (d ''High''),
       low = whenPresent parseFloat (d ''Low''),
       close = whenPresent parseFloat (d ''Close''),
       volume = whenPresent parseInt10 (d ''Volume'') \<rparr>"

definition keepRow :: "ohlcv \<Rightarrow> bool" where
  "keepRow r =
     ((case date r of None \<Rightarrow> False | Some dt \<Rightarrow> \<not> isNaN (getTime dt)) \<and>
      \<not> isNaN (open' r) \<and> \<not> isNaN (high r) \<and>
      \<not> isNaN (low r) \<and> \<not> isNaN (close r) \<and>
      \<not> isNaN (volume r))"

definition raw :: "(string \<Rightarrow> jsdate) \<Rightarrow> rawRow list \<Rightarrow> ohlcv list" where
  "raw newDate rows = filter keepRow (map (ohlcvOfRow newDate) rows)"

text \<open>\<open>a.date - b.date\<close>: a \<open>Date\<close> converts to its time value, \<open>null\<close> to 0.\<close>

definition dateToNumber :: "jsdate option \<Rightarrow> jsnum" where
  "dateToNumber v = (case v of None \<Rightarrow> Fin 0 | Some dt \<Rightarrow> getTime dt)"

definition byDate :: "ohlcv \<Rightarrow> ohlcv \<Rightarrow> jsnum" where
  "byDate a b = jssub (dateToNumber (date a)) (dateToNumber (date b))"

definition parseCSV :: "(string \<Rightarrow> jsdate) \<Rightarrow> rawRow list \<Rightarrow> ohlcv list" where
  "parseCSV newDate rows = arraySort byDate (raw newDate rows)"

text \<open>
  The initial window of the chart. The chart library turns \<open>data\<close> into \<open>chartData\<close>
  and supplies \<open>xAccessor\<close>; both are parameters. The result is \<open>None\<close> where the
  source would hand \<open>undefined\<close> to the accessor.
\<close>

definition displayCount :: "'c list \<Rightarrow> int" where
  "displayCount chartData = min 150 (int (length chartData))"

definition startIndex :: "'c list \<Rightarrow> int" where
  "startIndex chartData = max 0 (int (length chartData) - displayCount chartData)"

definition xExtents :: "('c \<Rightarrow> 'x) \<Rightarrow> 'c list \<Rightarrow> ('x \<times> 'x) option" where
  "xExtents xAccessor chartData =
     (case (arrayGet chartData (startIndex chartData),
            arrayGet chartData (int (length chartData) - 1)) of
        (Some a, Some b) \<Rightarrow> Some (xAccessor a, xAccessor b)
      | _ \<Rightarrow> None)"

datatype 'x chartView = LoadingCSV | Chart "('x \<times> 'x) option"

definition ChartApp :: "(ohlcv list \<Rightarrow> 'c list) \<Rightarrow> ('c \<Rightarrow> 'x) \<Rightarrow> ohlcv list \<Rightarrow> 'x chartView" where
  "ChartApp scale xAccessor data =
     (if length data = 0 then LoadingCSV else Chart (xExtents xAccessor (scale data)))"

text \<open>
  One \<open>Date\<close> parser, for examples: the date-only ISO format \<open>YYYY-MM-DD\<close>, read as
  midnight UTC as the language requires; every other text is invalid for it.
\<close>

definition isLeap :: "int \<Rightarrow> bool" where
  "isLeap y = (y mod 4 = 0 \<and> (y mod 100 \<noteq> 0 \<or> y mod 400 = 0))"

definition daysInMonth :: "int \<Rightarrow> int \<Rightarrow> int" where
  "daysInMonth y m =
     (if m = 2 then (if isLeap y then 29 else 28)
      else if m = 4 \<or> m = 6 \<or> m = 9 \<or> m = 11 then 30 else 31)"

definition daysFromCivil :: "int \<Rightarrow> int \<Rightarrow> int \<Rightarrow> int" where
  "daysFromCivil y m d =
     (let y' = (if m \<le> 2 then y - 1 else y);
          era = y' div 400;
          yoe = y' - era * 400;
          mp = (m + 9) mod 12;
          doy = (153 * mp + 2) div 5 + d - 1;
          doe = yoe * 365 + yoe div 4 - yoe div 100 + doy
      in era * 146097 + doe - 719468)"

definition isoDate :: "string \<Rightarrow> jsdate" where
  "isoDate s =
     (if length s = 10 \<and> list_all isDigit (take 4 s) \<and> s ! 4 = CHR ''-'' \<and>
         list_all isDigit (take 2 (drop 5 s)) \<and> s ! 7 = CHR ''-'' \<and>
         list_all isDigit (drop 8 s)
      then
        let y = int (decVal (take 4 s));
            m = int (decVal (take 2 (drop 5 s)));
            d = int (decVal (drop 8 s))
        in if 1 \<le> m \<and> m \<le> 12 \<and> 1 \<le> d \<and> d \<le> daysInMonth y m
           then ValidDate (daysFromCivil y m d * 86400000)
           else InvalidDate
      else InvalidDate)"

section \<open>The trade viewers: rows, equity curve, summary\<close>

text \<open>
  Two viewers share one design. Viewer A (\<open>backtest-viewer/src/App.js\<close>) reads the
  columns Entry Date, Exit Date, Direction, Shares, Entry Price, Exit Price, PnL ($) and
  Recovery Mode and rounds to 2 places; viewer B reads Entry Date, Exit Date, Entry Price,
  Exit Price and PnL, rounds the equity to 6 places and prints the total with 4. A trade of
  viewer A is a trade of viewer B with three more fields.
\<close>

record trade =
  entryDate :: "string option"
  exitDate :: "string option"
  entryPrice :: jsnum
  exitPrice :: jsnum
  pnl :: jsnum

record tradeA = trade +
  direction :: "string option"
  shares :: jsnum
  recovery :: bool

definition tradeOfRowA :: "rawRow \<Rightarrow> tradeA" where
  "tradeOfRowA r =
     \<lparr> entryDate = r ''Entry Date'',
       exitDate = r ''Exit Date'',
       entryPrice = Number (r ''Entry Price''),
       exitPrice = Number (r ''Exit Price''),
       pnl = Number (r ''PnL ($)''),
       direction = r ''Direction'',
       shares = Number (r ''Shares''),
       recovery = (r ''Recovery Mode'' = Some ''True'') \<rparr>"

definition tradeOfRowB :: "rawRow \<Rightarrow> trade" where
  "tradeOfRowB r =
     \<lparr> entryDate = r ''Entry Date'',
       exitDate = r ''Exit Date'',
       entryPrice = Number (r ''Entry Price''),
       exitPrice = Number (r ''Exit Price''),
       pnl = Number (r ''PnL'') \<rparr>"

definition rowsA :: "rawRow list \<Rightarrow> tradeA list" where
  "rowsA parsed = map tradeOfRowA parsed"

definition rowsB :: "rawRow list \<Rightarrow> trade list" where
  "rowsB parsed = map tradeOfRowB parsed"

text \<open>
  An equity point; \<open>ep_date\<close> and \<open>ep_pnl\<close> are the source's \<open>date\<close> and \<open>pnl\<close>.
  The scan carries \<open>cumulative\<close>, the variable the source's callback updates; \<open>f\<close> is
  the number of places of \<open>toFixed\<close>.
\<close>

record equityPoint =
  ep_date :: "string option"
  ep_pnl :: jsnum
  equity :: jsnum

fun equityScan :: "nat \<Rightarrow> jsnum \<Rightarrow> ('a trade_scheme) list \<Rightarrow> equityPoint list" where
  "equityScan f cumulative [] = []"
| "equityScan f cumulative (t # ts) =
     (let cumulative' = jsadd cumulative (pnl t)
      in \<lparr> ep_date = entryDate t,
           ep_pnl = pnl t,
           equity = NumberOfText (toFixed f cumulative') \<rparr>
         # equityScan f cumulative' ts)"

definition equityRowsA :: "tradeA list \<Rightarrow> equityPoint list" where
  "equityRowsA rows = equityScan 2 (Fin 0) rows"

definition equityRowsB :: "trade list \<Rightarrow> equityPoint list" where
  "equityRowsB rows = equityScan 6 (Fin 0) rows"

text \<open>
  The component's state and what it renders. Reading \<open>.equity\<close> of \<open>undefined\<close> is a
  \<open>TypeError\<close>; the summary is computed only past the guard on the equity array.
\<close>

record 'a appState =
  st_trades :: "'a list"
  st_equity :: "equityPoint list"

record summary =
  totalTrades :: nat
  winRate :: jstext
  totalPnL :: jstext

datatype jsfault = TypeError

datatype view = LoadingData | Dashboard summary

definition winRateOf :: "('a trade_scheme) list \<Rightarrow> jstext" where
  "winRateOf ts =
     toFixed 2 (jsmul (jsdiv (Fin (of_nat (length (filter (\<lambda>t. jsgt0 (pnl t)) ts))))
                             (Fin (of_nat (length ts))))
                      (Fin 100))"

definition renderWith :: "nat \<Rightarrow> ('a trade_scheme) appState \<Rightarrow> jsfault + view" where
  "renderWith p st =
     (if length (st_equity st) = 0 then Inr LoadingData
      else case arrayGet (st_equity st) (int (length (st_equity st)) - 1) of
             None \<Rightarrow> Inl TypeError
           | Some e \<Rightarrow>
               Inr (Dashboard \<lparr> totalTrades = length (st_trades st),
                                winRate = winRateOf (st_trades st),
                                totalPnL = toFixed p (equity e) \<rparr>))"

definition renderA :: "tradeA appState \<Rightarrow> jsfault + view" where
  "renderA st = renderWith 2 st"

definition renderB :: "trade appState \<Rightarrow> jsfault + view" where
  "renderB st = renderWith 4 st"

text \<open>
  The states the component passes through: the initial one, and, once the document has
  been fetched and parsed, the state after \<open>setTrades(rows)\<close> and the state after
  \<open>setEquity(equityRows)\<close>. A render may happen in each.
\<close>

definition initialState :: "'a appState" where
  "initialState = \<lparr> st_trades = [], st_equity = [] \<rparr>"

definition statesA :: "rawRow list option \<Rightarrow> tradeA appState list" where
  "statesA fetched =
     (case fetched of
        None \<Rightarrow> [initialState]
      | Some parsed \<Rightarrow>
          [initialState,
           \<lparr> st_trades = rowsA parsed, st_equity = [] \<rparr>,
           \<lparr> st_trades = rowsA parsed, st_equity = equityRowsA (rowsA parsed) \<rparr>])"

definition statesB :: "rawRow list option \<Rightarrow> trade appState list" where
  "statesB fetched =
     (case fetched of
        None \<Rightarrow> [initialState]
      | Some parsed \<Rightarrow>
          [initialState,
           \<lparr> st_trades = rowsB parsed, st_equity = [] \<rparr>,
           \<lparr> st_trades = rowsB parsed, st_equity = equityRowsB (rowsB parsed) \<rparr>])"

section \<open>Notions of the specification\<close>

text \<open>
  The accumulator of the equity scan after row \<open>i\<close>: the sum, left to right and never
  rounded, of the first \<open>i + 1\<close> values of \<open>pnl\<close>.
\<close>

definition runningSum :: "('a trade_scheme) list \<Rightarrow> nat \<Rightarrow> jsnum" where
  "runningSum ts i = foldl jsadd (Fin 0) (map pnl (take (Suc i) ts))"

text \<open>Rounding to \<open>f\<close> decimal places, a tie going away from zero.\<close>

definition roundTo :: "nat \<Rightarrow> rat \<Rightarrow> rat" where
  "roundTo f x =
     (if x < 0 then - (of_int \<lfloor>- x * 10 ^ f + 1 / 2\<rfloor> / 10 ^ f)
      else of_int \<lfloor>x * 10 ^ f + 1 / 2\<rfloor> / 10 ^ f)"

text \<open>
  A row of the price document is well formed when its six fields are present, the date
  is a real date and the five numbers parse.
\<close>

definition numericField :: "(string \<Rightarrow> jsnum) \<Rightarrow> string option \<Rightarrow> bool" where
  "numericField f v = (case v of None \<Rightarrow> False | Some s \<Rightarrow> s \<noteq> [] \<and> \<not> isNaN (f s))"

definition dateField :: "(string \<Rightarrow> jsdate) \<Rightarrow> string option \<Rightarrow> bool" where
  "dateField newDate v =
     (case v of None \<Rightarrow> False | Some s \<Rightarrow> s \<noteq> [] \<and> newDate s \<noteq> InvalidDate)"

definition wellFormedRow :: "(string \<Rightarrow> jsdate) \<Rightarrow> rawRow \<Rightarrow> bool" where
  "wellFormedRow newDate d =
     (dateField newDate (d ''Date'') \<and>
      numericField parseFloat (d ''Open'') \<and> numericField parseFloat (d ''High'') \<and>
      numericField parseFloat (d ''Low'') \<and> numericField parseFloat (d ''Close'') \<and>
      numericField parseInt10 (d ''Volume''))"

text \<open>
  The invariant the specification gives a price record: six fields present and finite,
  the volume a non-negative integer.
\<close>

fun isFinite :: "jsnum \<Rightarrow> bool" where
  "isFinite (Fin x) = True"
| "isFinite _ = False"

fun nonNegInteger :: "jsnum \<Rightarrow> bool" where
  "nonNegInteger (Fin x) = (0 \<le> x \<and> of_int \<lfloor>x\<rfloor> = x)"
| "nonNegInteger _ = False"

definition hasValidDate :: "ohlcv \<Rightarrow> bool" where
  "hasValidDate r = (case date r of Some (ValidDate t) \<Rightarrow> True | _ \<Rightarrow> False)"

definition ohlcvInvariant :: "ohlcv \<Rightarrow> bool" where
  "ohlcvInvariant r =
     (hasValidDate r \<and> isFinite (open' r) \<and> isFinite (high r) \<and> isFinite (low r) \<and>
      isFinite (close r) \<and> nonNegInteger (volume r))"

text \<open>The timestamp of a record that has a valid date.\<close>

definition timestamp :: "ohlcv \<Rightarrow> int" where
  "timestamp r = (case date r of Some (ValidDate t) \<Rightarrow> t | _ \<Rightarrow> 0)"

section \<open>Sample documents\<close>

definition priceRow :: "string \<Rightarrow> string \<Rightarrow> string \<Rightarrow> rawRow" where
  "priceRow d c v =
     map_of [(''Date'', d), (''Open'', ''1''), (''High'', ''2''), (''Low'', ''0.5''),
             (''Close'', c), (''Volume'', v)]"

definition tradeRowA :: "string \<Rightarrow> string \<Rightarrow> string \<Rightarrow> rawRow" where
  "tradeRowA sh p rm =
     map_of [(''Entry Date'', ''2024-01-02''), (''Exit Date'', ''2024-01-03''),
             (''Direction'', ''LONG''), (''Shares'', sh), (''Entry Price'', ''100''),
             (''Exit Price'', ''101.5''), (''PnL ($)'', p), (''Recovery Mode'', rm)]"

definition tradeRowB :: "string \<Rightarrow> rawRow" where
  "tradeRowB p =
     map_of [(''Entry Date'', ''2024-01-02''), (''Exit Date'', ''2024-01-03''),
             (''Entry Price'', ''100''), (''Exit Price'', ''101.5''), (''PnL'', p)]"

definition bar :: "int \<Rightarrow> rat \<Rightarrow> ohlcv" where
  "bar t c =
     \<lparr> date = Some (ValidDate t), open' = Fin 1, high = Fin 2, low = Fin (1 / 2),
       close = Fin c, volume = Fin 10 \<rparr>"

definition docA :: "rawRow list" where
  "docA = [tradeRowA ''1'' ''10'' ''True'', tradeRowA ''1'' ''-3'' ''False'',
           tradeRowA ''2'' ''5'' ''true'']"

definition docB :: "rawRow list" where
  "docB = [tradeRowB ''10'', tradeRowB ''-3'', tradeRowB ''5'']"

definition badDocA :: "rawRow list" where
  "badDocA = [tradeRowA ''1'' ''10'' ''True'', tradeRowA ''x'' ''n/a'' ''False'',
              tradeRowA ''2'' ''5'' ''True'']"

definition badDocB :: "rawRow list" where
  "badDocB = [tradeRowB ''10'', tradeRowB ''n/a'', tradeRowB ''5'']"

definition sampleBars :: "ohlcv list" where
  "sampleBars = [bar 3 1, bar 1 2, bar 3 3, bar 2 4]"

definition priceDoc :: "rawRow list" where
  "priceDoc = [priceRow ''2024-01-03'' ''1.5'' ''10'', priceRow ''2024-01-02'' ''1.5'' [],
               priceRow ''garbage'' ''1.5'' ''10'', priceRow ''2024-01-01'' ''1.25'' ''12'']"

definition fineDocA :: "rawRow list" where
  "fineDocA = [tradeRowA ''1'' ''0.0625'' ''False'']"

definition fineDocB :: "rawRow list" where
  "fineDocB = [tradeRowB ''0.015625'']"

definition fourDocA :: "rawRow list" where
  "fourDocA = [tradeRowA ''1'' ''10'' ''True'', tradeRowA ''1'' ''-3'' ''False'',
               tradeRowA ''2'' ''5'' ''False'', tradeRowA ''1'' ''-1'' ''False'']"

definition fourDocB :: "rawRow list" where
  "fourDocB = [tradeRowB ''10'', tradeRowB ''-3'', tradeRowB ''5'', tradeRowB ''-1'']"

definition tieDocA :: "rawRow list" where
  "tieDocA = [tradeRowA ''1'' ''1.005'' ''False'']"

definition bigDocB :: "rawRow list" where
  "bigDocB = replicate 23 (tradeRowB ''1'') @ replicate 137 (tradeRowB ''-1'')"

section \<open>Evaluation of the coercions\<close>

lemma floor_rat_numeral: "\<lfloor>numeral a / numeral b :: rat\<rfloor> = numeral a div numeral b"
  using floor_divide_of_int_eq [of "numeral a" "numeral b", where ?'a = rat] by simp

lemma bitLength_0: "bitLength 0 = 0"
  by (subst bitLength.simps) simp

lemma bitLength_pos: "0 < n \<Longrightarrow> bitLength n = Suc (bitLength (n div 2))"
  by (subst bitLength.simps) simp

lemmas double_defs =
  toDouble_def roundPositive_def quantum_def roundHalfEven_def binaryExponent_def pow2_def
  bitLength_0 bitLength_pos floor_rat_numeral Let_def

lemma toDouble_samples:
  "toDouble 0 = Fin 0" "toDouble 1 = Fin 1" "toDouble 2 = Fin 2" "toDouble 5 = Fin 5"
  "toDouble 7 = Fin 7" "toDouble 10 = Fin 10" "toDouble 11 = Fin 11" "toDouble 12 = Fin 12"
  "toDouble 50 = Fin 50" "toDouble 100 = Fin 100"
  "toDouble (1 / 2) = Fin (1 / 2)" "toDouble (3 / 2) = Fin (3 / 2)"
  "toDouble (5 / 4) = Fin (5 / 4)" "toDouble (1 / 16) = Fin (1 / 16)"
  "toDouble (1 / 64) = Fin (1 / 64)"
  "toDouble (- 1) = Fin (- 1)" "toDouble (- 3) = Fin (- 3)" "toDouble (- 5) = Fin (- 5)"
  by (simp_all add: double_defs)

lemma digitsOf_small: "n < 10 \<Longrightarrow> digitsOf n = [digitChar n]"
  by (subst digitsOf.simps) simp

lemma digitsOf_big:
  "\<not> n < 10 \<Longrightarrow> digitsOf n = digitsOf (n div 10) @ [digitChar (n mod 10)]"
  by (subst digitsOf.simps) simp

lemmas parse_defs =
  StringToNumber_def roundMV_def StringNumericLiteralMV_def toDouble_samples trim_def isWhiteSpace_def isDigit_def digitVal_def decVal_def
  nonDecimalIntegerLiteral_def isRadixDigits_def radixVal_def isHexDigit_def hexVal_def
  strDecimalLiteral_def strUnsignedDecimalLiteral_def fracDigits_def afterFrac_def
  mantissa_def exponentPart_def signedInteger_def digitsInt_def pow10_def

lemmas prefix_defs =
  parseFloat_def parseFloatMV_def pfUnsigned_def pfExponent_def pfDigits_def parseInt10_def
  parseInt10MV_def

lemmas fixed_defs =
  toFixed_def fixedDigits_def digitsOf_small digitsOf_big digitChar_def
  NumberOfText_def Let_def floor_rat_numeral


lemma round_NaN: "NumberOfText (toFixed f NaN) = NaN"
  by (simp add: toFixed_def NumberOfText_def parse_defs)

lemma round_PInf: "NumberOfText (toFixed f PInf) = PInf"
  by (simp add: toFixed_def NumberOfText_def parse_defs)

lemma round_NInf: "NumberOfText (toFixed f NInf) = NInf"
  by (simp add: toFixed_def NumberOfText_def parse_defs)

section \<open>Rounding to a double\<close>

lemma bitLength_lower: "0 < n \<Longrightarrow> 2 ^ (bitLength n - 1) \<le> n"
proof (induction n rule: bitLength.induct)
  case (1 n)
  show ?case
  proof (cases "n div 2 = 0")
    case True
    with "1.prems" show ?thesis by (simp add: bitLength_pos bitLength_0)
  next
    case False
    then have h: "0 < n div 2" by simp
    from "1.prems" have n: "n \<noteq> 0" by simp
    have ih: "2 ^ (bitLength (n div 2) - 1) \<le> n div 2" using n h by (rule "1.IH")
    have p: "bitLength (n div 2) = Suc (bitLength (n div 2) - 1)"
      using h by (simp add: bitLength_pos)
    have "2 ^ (bitLength n - 1) = (2::nat) ^ bitLength (n div 2)"
      using "1.prems" by (simp add: bitLength_pos)
    also have "\<dots> = 2 * 2 ^ (bitLength (n div 2) - 1)"
      by (subst p) simp
    also have "\<dots> \<le> 2 * (n div 2)" using ih by simp
    also have "\<dots> \<le> n" by simp
    finally show ?thesis .
  qed
qed

lemma bitLength_upper: "n < 2 ^ bitLength n"
proof (induction n rule: bitLength.induct)
  case (1 n)
  show ?case
  proof (cases "n = 0")
    case True
    then show ?thesis by (simp add: bitLength_0)
  next
    case False
    then have ih: "n div 2 < 2 ^ bitLength (n div 2)" by (rule "1.IH")
    then have "n < 2 * 2 ^ bitLength (n div 2)" by linarith
    then show ?thesis using False by (simp add: bitLength_pos)
  qed
qed

lemma pow2_pos: "0 < pow2 k"
  by (simp add: pow2_def)

lemma pow2_nat: "pow2 (int n) = 2 ^ n"
  by (simp add: pow2_def)

lemma pow2_neg_nat: "pow2 (- int n) = 1 / 2 ^ n"
  by (cases n) (simp_all add: pow2_def nat_add_distrib)

lemma pow2_Suc: "pow2 (k + 1) = 2 * pow2 k"
proof (cases "0 \<le> k")
  case True
  then show ?thesis by (simp add: pow2_def nat_add_distrib)
next
  case False
  then obtain n where k: "k = - int (Suc n)"
    by (metis add.inverse_inverse not_le zero_less_imp_eq_int neg_0_less_iff_less less_imp_Suc_add of_nat_Suc
        of_nat_0 add.left_neutral)
  have "pow2 (k + 1) = pow2 (- int n)" by (simp add: k)
  also have "\<dots> = 1 / 2 ^ n" by (rule pow2_neg_nat)
  also have "\<dots> = 2 * (1 / 2 ^ Suc n)" by simp
  also have "\<dots> = 2 * pow2 k" unfolding k by (simp only: pow2_neg_nat)
  finally show ?thesis .
qed

lemma pow2_mono_nat: "pow2 k \<le> pow2 (k + int n)"
proof (induction n)
  case 0
  then show ?case by simp
next
  case (Suc n)
  have "k + int (Suc n) = k + int n + 1" by simp
  then have "pow2 (k + int (Suc n)) = 2 * pow2 (k + int n)"
    by (simp only: pow2_Suc)
  moreover have "0 < pow2 (k + int n)" by (rule pow2_pos)
  ultimately show ?case using Suc by linarith
qed

lemma pow2_mono: "j \<le> k \<Longrightarrow> pow2 j \<le> pow2 k"
  using pow2_mono_nat [of j "nat (k - j)"] by simp

text \<open>
  \<open>binaryExponent x\<close> is the exponent of the binade of a positive \<open>x\<close>.
\<close>

lemma binaryExponent_bounds:
  assumes "0 < x"
  shows "pow2 (binaryExponent x) \<le> x \<and> x < pow2 (binaryExponent x + 1)"
proof (cases "1 \<le> x")
  case True
  define m where "m = nat \<lfloor>x\<rfloor>"
  define e where "e = int (bitLength m) - 1"
  from True have fl: "1 \<le> \<lfloor>x\<rfloor>" by simp
  then have m: "0 < m" "of_nat m = (of_int \<lfloor>x\<rfloor> :: rat)" by (simp_all add: m_def)
  have bl: "0 < bitLength m" using m(1) by (simp add: bitLength_pos)
  then have e: "e = int (bitLength m - 1)" "e + 1 = int (bitLength m)" by (simp_all add: e_def)
  have "(2::rat) ^ (bitLength m - 1) \<le> of_nat m"
    using bitLength_lower [OF m(1)] by (metis of_nat_le_iff of_nat_numeral of_nat_power)
  also have "\<dots> \<le> x" unfolding m(2) by simp
  finally have lo: "pow2 e \<le> x" unfolding e(1) pow2_nat .
  have "x < of_int \<lfloor>x\<rfloor> + 1" using floor_correct [of x] by simp
  also have "\<dots> = of_nat (m + 1)" using m(2) by simp
  also have "\<dots> \<le> (2::rat) ^ bitLength m"
    using bitLength_upper [of m] by (metis Suc_eq_plus1 Suc_leI of_nat_le_iff of_nat_numeral of_nat_power)
  finally have hi: "x < pow2 (e + 1)" unfolding e(2) pow2_nat .
  then have "binaryExponent x = e"
    using True by (simp add: binaryExponent_def Let_def e_def m_def)
  with lo hi show ?thesis by simp
next
  case False
  define m where "m = nat \<lfloor>1 / x\<rfloor>"
  define e where "e = - int (bitLength m)"
  from False assms have "1 \<le> 1 / x" by simp
  then have fl: "1 \<le> \<lfloor>1 / x\<rfloor>" by (simp only: one_le_floor)
  then have nn: "0 \<le> \<lfloor>1 / x\<rfloor>" and ps: "0 < \<lfloor>1 / x\<rfloor>" by linarith+
  have m: "0 < m" "of_nat m = (of_int \<lfloor>1 / x\<rfloor> :: rat)"
    unfolding m_def using ps of_nat_nat [OF nn, where ?'a = rat]
    by (simp_all only: zero_less_nat_eq)
  have bl: "0 < bitLength m" using m(1) by (simp add: bitLength_pos)
  have e1: "e + 1 = - int (bitLength m - 1)" using bl by (simp add: e_def)
  have "1 / x < of_int \<lfloor>1 / x\<rfloor> + 1" using floor_correct [of "1 / x"] by simp
  also have "\<dots> = of_nat (m + 1)" using m(2) by simp
  also have "\<dots> \<le> (2::rat) ^ bitLength m"
    using bitLength_upper [of m] by (metis Suc_eq_plus1 Suc_leI of_nat_le_iff of_nat_numeral of_nat_power)
  finally have "1 / x < 2 ^ bitLength m" .
  then have "1 < x * 2 ^ bitLength m" using assms by (simp add: divide_less_eq mult.commute)
  then have lo: "pow2 e < x" unfolding e_def pow2_neg_nat by (simp add: divide_less_eq)
  have "(2::rat) ^ (bitLength m - 1) \<le> of_nat m"
    using bitLength_lower [OF m(1)] by (metis of_nat_le_iff of_nat_numeral of_nat_power)
  also have "\<dots> \<le> 1 / x" unfolding m(2) by simp
  finally have "x * 2 ^ (bitLength m - 1) \<le> 1" using assms by (simp add: le_divide_eq mult.commute)
  then have hi: "x \<le> pow2 (e + 1)" unfolding e1 pow2_neg_nat by (simp add: le_divide_eq)
  have b: "binaryExponent x = (if pow2 (e + 1) \<le> x then e + 1 else e)"
    using False by (simp add: binaryExponent_def Let_def e_def m_def)
  show ?thesis
  proof (cases "pow2 (e + 1) \<le> x")
    case True
    have "x < 2 * pow2 (e + 1)" using hi pow2_pos [of "e + 1"] by linarith
    then have "x < pow2 (e + 1 + 1)" by (simp only: pow2_Suc)
    with True b show ?thesis by simp
  next
    case False
    with b lo show ?thesis by simp
  qed
qed

text \<open>
  The result of rounding, when finite, is a multiple of the quantum of the binade and
  lies within half a quantum of the exact value.
\<close>

lemma roundHalfEven_near: "\<bar>of_int (roundHalfEven y) - y\<bar> \<le> 1 / 2"
proof -
  have "of_int \<lfloor>y\<rfloor> \<le> y" "y < of_int \<lfloor>y\<rfloor> + 1"
    using floor_correct [of y] by simp_all
  then show ?thesis
    by (auto simp: roundHalfEven_def Let_def abs_le_iff)
qed

lemma quantum_pos: "0 < quantum x"
  by (simp add: quantum_def pow2_pos)

lemma roundPositive_near:
  assumes "roundPositive x = Fin v"
  shows "\<bar>v - x\<bar> \<le> quantum x / 2 \<and> (\<exists>n::int. v = of_int n * quantum x)"
proof -
  define n where "n = roundHalfEven (x / quantum x)"
  from assms have v: "v = of_int n * quantum x"
    by (simp add: roundPositive_def Let_def n_def split: if_splits)
  have q: "0 < quantum x" by (rule quantum_pos)
  have "v - x = (of_int n - x / quantum x) * quantum x"
    using q by (simp add: v algebra_simps)
  then have "\<bar>v - x\<bar> = \<bar>of_int n - x / quantum x\<bar> * quantum x"
    using q by (simp add: abs_mult)
  also have "\<dots> \<le> 1 / 2 * quantum x"
    using roundHalfEven_near [of "x / quantum x"] q
    unfolding n_def by (intro mult_right_mono) simp_all
  finally have "\<bar>v - x\<bar> \<le> quantum x / 2" by simp
  with v show ?thesis by blast
qed

lemma toDouble_near:
  assumes "toDouble x = Fin v"
  shows "\<bar>v - x\<bar> \<le> quantum \<bar>x\<bar> / 2 \<and> (\<exists>n::int. v = of_int n * quantum \<bar>x\<bar>)"
proof (cases "x = 0")
  case True
  with assms have "v = 0" by (simp add: toDouble_def)
  moreover have "0 \<le> quantum \<bar>x\<bar> / 2" using quantum_pos [of "\<bar>x\<bar>"] by simp
  moreover have "(0::rat) = of_int 0 * quantum \<bar>x\<bar>" by simp
  ultimately show ?thesis using True by (simp only: abs_zero diff_zero) blast
next
  case False
  show ?thesis
  proof (cases "x < 0")
    case True
    with assms have "jsneg (roundPositive (- x)) = Fin v" by (simp add: toDouble_def)
    then have "roundPositive (- x) = Fin (- v)"
      by (cases "roundPositive (- x)") simp_all
    then have n: "\<bar>- v - (- x)\<bar> \<le> quantum (- x) / 2 \<and>
        (\<exists>n::int. - v = of_int n * quantum (- x))"
      by (rule roundPositive_near)
    then obtain k :: int where k: "- v = of_int k * quantum (- x)" by blast
    then have "v = of_int (- k) * quantum (- x)" by simp
    moreover have "\<bar>- v - (- x)\<bar> = \<bar>v - x\<bar>" by (simp add: abs_minus_commute)
    moreover have "\<bar>x\<bar> = - x" using True by simp
    ultimately show ?thesis using n by (simp only:) blast
  next
    case pos: False
    with False assms have "roundPositive x = Fin v" by (simp add: toDouble_def)
    then have "\<bar>v - x\<bar> \<le> quantum x / 2 \<and> (\<exists>n::int. v = of_int n * quantum x)"
      by (rule roundPositive_near)
    moreover have "\<bar>x\<bar> = x" using pos by simp
    ultimately show ?thesis by simp
  qed
qed

text \<open>Rounding keeps the sign of a number of magnitude 1 or more.\<close>

lemma roundHalfEven_ge: "1 \<le> y \<Longrightarrow> 1 \<le> roundHalfEven y"
proof -
  assume "1 \<le> y"
  then have "1 \<le> \<lfloor>y\<rfloor>" by simp
  then show ?thesis by (simp add: roundHalfEven_def Let_def)
qed

lemma quantum_le:
  assumes "1 \<le> x"
  shows "quantum x \<le> x"
proof -
  from assms have x: "0 < x" by simp
  note b = binaryExponent_bounds [OF x]
  have "quantum x \<le> pow2 (binaryExponent x)"
  proof (cases "- 1022 \<le> binaryExponent x")
    case True
    then show ?thesis by (simp add: quantum_def max_def pow2_mono)
  next
    case False
    then have "binaryExponent x + 1 \<le> 0" by simp
    then have "pow2 (binaryExponent x + 1) \<le> pow2 0" by (rule pow2_mono)
    with b assms show ?thesis by (simp add: pow2_def)
  qed
  with b show ?thesis by simp
qed

lemma roundPositive_gt0: "1 \<le> x \<Longrightarrow> jsgt0 (roundPositive x)"
proof -
  assume x: "1 \<le> x"
  have q: "0 < quantum x" by (simp add: quantum_def pow2_pos)
  have "1 \<le> x / quantum x" using quantum_le [OF x] q by (simp add: le_divide_eq)
  then have "1 \<le> roundHalfEven (x / quantum x)" by (rule roundHalfEven_ge)
  then have "0 < (of_int (roundHalfEven (x / quantum x)) :: rat) * quantum x"
    using q by (simp add: zero_less_mult_iff)
  then show ?thesis by (simp add: roundPositive_def Let_def)
qed

lemma jsgt0_jsneg: "jsgt0 w \<Longrightarrow> \<not> jsgt0 (jsneg w)"
  by (cases w) simp_all

lemma toDouble_int_gt0: "jsgt0 (toDouble (of_int k)) \<longleftrightarrow> 0 < k"
proof (cases "k = 0")
  case True
  then show ?thesis by (simp add: toDouble_def)
next
  case False
  show ?thesis
  proof (cases "0 < k")
    case True
    then have "(1::rat) \<le> of_int k" by simp
    then have "jsgt0 (roundPositive (of_int k))" by (rule roundPositive_gt0)
    with True show ?thesis by (simp add: toDouble_def)
  next
    case neg: False
    with False have "(1::rat) \<le> - of_int k" by simp
    then have "jsgt0 (roundPositive (- of_int k))" by (rule roundPositive_gt0)
    then have "\<not> jsgt0 (jsneg (roundPositive (- of_int k)))" by (rule jsgt0_jsneg)
    with neg False show ?thesis by (simp add: toDouble_def)
  qed
qed

lemma timeDifference_gt0:
  "jsgt0 (jssub (Fin (of_int t)) (Fin (of_int u))) \<longleftrightarrow> u < t"
proof -
  have "jssub (Fin (of_int t)) (Fin (of_int u)) = toDouble (of_int t - of_int u)"
    by (simp add: jssub_def)
  also have "\<dots> = toDouble (of_int (t - u))" by simp
  finally have e: "jssub (Fin (of_int t)) (Fin (of_int u)) = toDouble (of_int (t - u))" .
  show ?thesis unfolding e toDouble_int_gt0 by simp
qed

section \<open>The equity scan\<close>

lemma equityScan_length: "length (equityScan f c ts) = length ts"
  by (induction ts arbitrary: c) (simp_all add: Let_def)

lemma equityScan_nth:
  "i < length ts \<Longrightarrow>
   equityScan f c ts ! i =
     \<lparr> ep_date = entryDate (ts ! i), ep_pnl = pnl (ts ! i),
       equity = NumberOfText (toFixed f (foldl jsadd c (map pnl (take (Suc i) ts)))) \<rparr>"
proof (induction ts arbitrary: c i)
  case Nil
  then show ?case by simp
next
  case (Cons t ts)
  show ?case
  proof (cases i)
    case 0
    then show ?thesis by (simp add: Let_def)
  next
    case (Suc j)
    with Cons.prems have "j < length ts" by simp
    from Cons.IH [OF this, of "jsadd c (pnl t)"] Suc show ?thesis
      by (simp add: Let_def)
  qed
qed

lemma round_2_10: "NumberOfText (toFixed 2 (Fin 10)) = Fin 10"
  by (simp add: parse_defs fixed_defs)

lemma round_2_7: "NumberOfText (toFixed 2 (Fin 7)) = Fin 7"
  by (simp add: parse_defs fixed_defs)

lemma round_2_12: "NumberOfText (toFixed 2 (Fin 12)) = Fin 12"
  by (simp add: parse_defs fixed_defs)

lemma round_6_10: "NumberOfText (toFixed 6 (Fin 10)) = Fin 10"
  by (simp add: parse_defs fixed_defs)

lemma round_6_7: "NumberOfText (toFixed 6 (Fin 7)) = Fin 7"
  by (simp add: parse_defs fixed_defs)

lemma round_6_12: "NumberOfText (toFixed 6 (Fin 12)) = Fin 12"
  by (simp add: parse_defs fixed_defs)

lemma equityScan_example:
  assumes "map pnl ts = [Fin 10, Fin (- 3), Fin 5]"
    and "NumberOfText (toFixed f (Fin 10)) = Fin 10"
    and "NumberOfText (toFixed f (Fin 7)) = Fin 7"
    and "NumberOfText (toFixed f (Fin 12)) = Fin 12"
  shows "map equity (equityScan f (Fin 0) ts) = [Fin 10, Fin 7, Fin 12]"
proof -
  from assms(1) obtain a b c where ts: "ts = [a, b, c]"
    and p: "pnl a = Fin 10" "pnl b = Fin (- 3)" "pnl c = Fin 5"
    by (auto simp: map_eq_Cons_conv)
  show ?thesis
    unfolding ts using p assms(2-4) by (simp add: Let_def toDouble_samples)
qed

text \<open>
  C1. For every sequence of trades, in either viewer, the equity aggregator returns as
  many points as there are trades; the equity of point \<open>i\<close> is the running sum after
  row \<open>i\<close>, a sum that starts at 0 and is never rounded, passed through \<open>toFixed\<close>
  for that point only; and trades with pnl 10, -3, 5 give the equities 10, 7, 12.
\<close>

theorem equity_scan:
  "length (equityRowsA ts) = length ts \<and>
   length (equityRowsB us) = length us \<and>
   (\<forall>i < length ts.
      equity (equityRowsA ts ! i) = NumberOfText (toFixed 2 (runningSum ts i))) \<and>
   (\<forall>i < length us.
      equity (equityRowsB us ! i) = NumberOfText (toFixed 6 (runningSum us i))) \<and>
   (map pnl ts = [Fin 10, Fin (- 3), Fin 5] \<longrightarrow>
      map equity (equityRowsA ts) = [Fin 10, Fin 7, Fin 12]) \<and>
   (map pnl us = [Fin 10, Fin (- 3), Fin 5] \<longrightarrow>
      map equity (equityRowsB us) = [Fin 10, Fin 7, Fin 12])"
  unfolding equityRowsA_def equityRowsB_def runningSum_def
  by (simp add: equityScan_length equityScan_nth equityScan_example
      round_2_10 round_2_7 round_2_12 round_6_10 round_6_7 round_6_12)

lemma rowsA_sample: "map pnl (rowsA docA) = [Fin 10, Fin (- 3), Fin 5]"
  by (simp add: docA_def rowsA_def tradeOfRowA_def tradeRowA_def Number_def parse_defs)

lemma rowsB_sample: "map pnl (rowsB docB) = [Fin 10, Fin (- 3), Fin 5]"
  by (simp add: docB_def rowsB_def tradeOfRowB_def tradeRowB_def Number_def parse_defs)

theorem equity_scan_witness:
  "map pnl (rowsA docA) = [Fin 10, Fin (- 3), Fin 5] \<and>
   map equity (equityRowsA (rowsA docA)) = [Fin 10, Fin 7, Fin 12] \<and>
   map pnl (rowsB docB) = [Fin 10, Fin (- 3), Fin 5] \<and>
   map equity (equityRowsB (rowsB docB)) = [Fin 10, Fin 7, Fin 12] \<and>
   1 < length (rowsA docA) \<and>
   equity (equityRowsA (rowsA docA) ! 1) =
     NumberOfText (toFixed 2 (runningSum (rowsA docA) 1)) \<and>
   1 < length (rowsB docB) \<and>
   equity (equityRowsB (rowsB docB) ! 1) =
     NumberOfText (toFixed 6 (runningSum (rowsB docB) 1))"
proof -
  have "length (rowsA docA) = 3" "length (rowsB docB) = 3"
    by (simp_all add: rowsA_def rowsB_def docA_def docB_def)
  with equity_scan [of "rowsA docA" "rowsB docB"] rowsA_sample rowsB_sample
  show ?thesis by simp
qed

section \<open>Propagation of not-a-number\<close>

lemma jsadd_NaN_right: "jsadd x NaN = NaN"
  by (cases x) simp_all

lemma foldl_jsadd_NaN: "foldl jsadd NaN xs = NaN"
  by (induction xs) simp_all

lemma foldl_jsadd_contaminated:
  "NaN \<in> set xs \<Longrightarrow> foldl jsadd c xs = NaN"
proof (induction xs arbitrary: c)
  case Nil
  then show ?case by simp
next
  case (Cons x xs)
  show ?case
  proof (cases "x = NaN")
    case True
    then show ?thesis by (simp add: jsadd_NaN_right foldl_jsadd_NaN)
  next
    case False
    with Cons.prems have "NaN \<in> set xs" by simp
    then show ?thesis by (simp add: Cons.IH)
  qed
qed

lemma isNaN_iff: "isNaN x \<longleftrightarrow> x = NaN"
  by (cases x) simp_all

lemma runningSum_contaminated:
  assumes "k \<le> i" "i < length ts" "isNaN (pnl (ts ! k))"
  shows "runningSum ts i = NaN"
proof -
  from assms have "k < length (take (Suc i) ts)" by simp
  then have "map pnl (take (Suc i) ts) ! k \<in> set (map pnl (take (Suc i) ts))"
    by (metis length_map nth_mem)
  moreover from assms have "map pnl (take (Suc i) ts) ! k = NaN"
    by (simp add: isNaN_iff)
  ultimately have "NaN \<in> set (map pnl (take (Suc i) ts))" by simp
  then show ?thesis unfolding runningSum_def by (rule foldl_jsadd_contaminated)
qed

lemma equityScan_contaminated:
  assumes "k \<le> i" "i < length ts" "isNaN (pnl (ts ! k))"
  shows "equity (equityScan f (Fin 0) ts ! i) = NaN"
  using runningSum_contaminated [OF assms] assms(2)
  by (simp add: equityScan_nth runningSum_def round_NaN)

text \<open>
  C3. In either viewer the aggregator neither drops nor reorders: point \<open>i\<close> carries
  the pnl and the entry date of trade \<open>i\<close>. If the pnl of trade \<open>k\<close> is
  not-a-number, the equity of every point from \<open>k\<close> on is not-a-number.
\<close>

theorem sentinel_propagation:
  "length (equityRowsA ts) = length ts \<and>
   length (equityRowsB us) = length us \<and>
   (\<forall>i < length ts. ep_pnl (equityRowsA ts ! i) = pnl (ts ! i) \<and>
      ep_date (equityRowsA ts ! i) = entryDate (ts ! i)) \<and>
   (\<forall>i < length us. ep_pnl (equityRowsB us ! i) = pnl (us ! i) \<and>
      ep_date (equityRowsB us ! i) = entryDate (us ! i)) \<and>
   (\<forall>k i. k \<le> i \<and> i < length ts \<and> isNaN (pnl (ts ! k)) \<longrightarrow>
      equity (equityRowsA ts ! i) = NaN) \<and>
   (\<forall>k i. k \<le> i \<and> i < length us \<and> isNaN (pnl (us ! k)) \<longrightarrow>
      equity (equityRowsB us ! i) = NaN)"
proof -
  have a: "\<forall>k i. k \<le> i \<and> i < length ts \<and> isNaN (pnl (ts ! k)) \<longrightarrow>
      equity (equityRowsA ts ! i) = NaN"
    unfolding equityRowsA_def by (blast intro: equityScan_contaminated)
  have b: "\<forall>k i. k \<le> i \<and> i < length us \<and> isNaN (pnl (us ! k)) \<longrightarrow>
      equity (equityRowsB us ! i) = NaN"
    unfolding equityRowsB_def by (blast intro: equityScan_contaminated)
  have c: "\<forall>i < length ts. ep_pnl (equityRowsA ts ! i) = pnl (ts ! i) \<and>
      ep_date (equityRowsA ts ! i) = entryDate (ts ! i)"
    unfolding equityRowsA_def by (simp add: equityScan_nth)
  have d: "\<forall>i < length us. ep_pnl (equityRowsB us ! i) = pnl (us ! i) \<and>
      ep_date (equityRowsB us ! i) = entryDate (us ! i)"
    unfolding equityRowsB_def by (simp add: equityScan_nth)
  have e: "length (equityRowsA ts) = length ts" "length (equityRowsB us) = length us"
    unfolding equityRowsA_def equityRowsB_def by (simp_all add: equityScan_length)
  from a b c d e show ?thesis by blast
qed

lemma badA: "length (rowsA badDocA) = 3" "pnl (rowsA badDocA ! 1) = NaN"
  "pnl (rowsA badDocA ! 2) = Fin 5"
  by (simp_all add: badDocA_def rowsA_def tradeOfRowA_def tradeRowA_def Number_def parse_defs)

lemma badB: "length (rowsB badDocB) = 3" "pnl (rowsB badDocB ! 1) = NaN"
  by (simp_all add: badDocB_def rowsB_def tradeOfRowB_def tradeRowB_def Number_def parse_defs)

theorem sentinel_propagation_witness:
  "(1::nat) \<le> 2 \<and> 2 < length (rowsA badDocA) \<and> isNaN (pnl (rowsA badDocA ! 1)) \<and>
   equity (equityRowsA (rowsA badDocA) ! 2) = NaN \<and>
   ep_pnl (equityRowsA (rowsA badDocA) ! 2) = Fin 5 \<and>
   length (equityRowsA (rowsA badDocA)) = 3 \<and>
   2 < length (rowsB badDocB) \<and> isNaN (pnl (rowsB badDocB ! 1)) \<and>
   equity (equityRowsB (rowsB badDocB) ! 2) = NaN \<and>
   length (equityRowsB (rowsB badDocB)) = 3"
proof -
  note t = sentinel_propagation [of "rowsA badDocA" "rowsB badDocB"]
  have h: "(1::nat) \<le> 2" "(2::nat) < 3" by simp_all
  from t have "equity (equityRowsA (rowsA badDocA) ! 2) = NaN"
    using badA h by (metis isNaN.simps(1))
  moreover from t have "equity (equityRowsB (rowsB badDocB) ! 2) = NaN"
    using badB h by (metis isNaN.simps(1))
  moreover from t have "ep_pnl (equityRowsA (rowsA badDocA) ! 2) = Fin 5"
    using badA h by metis
  ultimately show ?thesis using t badA badB by simp
qed

section \<open>The trade normalizer\<close>


text \<open>
  C4. The trade normalizer of either viewer returns one trade per row, in the order of
  the rows. Every numeric field is \<open>Number\<close> of the text of its column, so a text that
  is not a numeral gives not-a-number in that field of a row that is kept; and the
  recovery flag is true exactly when the column Recovery Mode holds the text True.
\<close>

theorem trade_normalizer:
  "length (rowsA parsed) = length parsed \<and>
   length (rowsB parsed) = length parsed \<and>
   (\<forall>i < length parsed.
      rowsA parsed ! i = tradeOfRowA (parsed ! i) \<and>
      rowsB parsed ! i = tradeOfRowB (parsed ! i)) \<and>
   shares (tradeOfRowA r) = Number (r ''Shares'') \<and>
   entryPrice (tradeOfRowA r) = Number (r ''Entry Price'') \<and>
   exitPrice (tradeOfRowA r) = Number (r ''Exit Price'') \<and>
   pnl (tradeOfRowA r) = Number (r ''PnL ($)'') \<and>
   entryPrice (tradeOfRowB r) = Number (r ''Entry Price'') \<and>
   exitPrice (tradeOfRowB r) = Number (r ''Exit Price'') \<and>
   pnl (tradeOfRowB r) = Number (r ''PnL'') \<and>
   Number None = NaN \<and>
   Number (Some ''n/a'') = NaN \<and>
   recovery (tradeOfRowA r) = (r ''Recovery Mode'' = Some ''True'')"
  by (simp add: rowsA_def rowsB_def tradeOfRowA_def tradeOfRowB_def Number_def parse_defs)

lemma badDocA_rows:
  "length badDocA = 3" "badDocA ! 0 = tradeRowA ''1'' ''10'' ''True''"
  "badDocA ! 1 = tradeRowA ''x'' ''n/a'' ''False''"
  "badDocA ! Suc 0 = tradeRowA ''x'' ''n/a'' ''False''"
  by (simp_all add: badDocA_def)

lemma tradeRowA_fields:
  "tradeRowA sh p rm ''Shares'' = Some sh" "tradeRowA sh p rm ''PnL ($)'' = Some p"
  "tradeRowA sh p rm ''Recovery Mode'' = Some rm" "tradeRowA sh p rm ''PnL'' = None"
  by (simp_all add: tradeRowA_def)

theorem trade_normalizer_witness:
  "1 < length badDocA \<and>
   length (rowsA badDocA) = 3 \<and>
   rowsA badDocA ! 1 = tradeOfRowA (tradeRowA ''x'' ''n/a'' ''False'') \<and>
   rowsB badDocA ! 1 = tradeOfRowB (tradeRowA ''x'' ''n/a'' ''False'') \<and>
   shares (tradeOfRowA (tradeRowA ''x'' ''n/a'' ''False'')) = NaN \<and>
   pnl (tradeOfRowA (tradeRowA ''x'' ''n/a'' ''False'')) = NaN \<and>
   pnl (tradeOfRowB (tradeRowA ''x'' ''n/a'' ''False'')) = NaN \<and>
   recovery (tradeOfRowA (tradeRowA ''x'' ''n/a'' ''False'')) = False \<and>
   recovery (tradeOfRowA (tradeRowA ''1'' ''10'' ''True'')) = True"
proof -
  note t = trade_normalizer [of badDocA "tradeRowA ''x'' ''n/a'' ''False''"]
  note t0 = trade_normalizer [of badDocA "tradeRowA ''1'' ''10'' ''True''"]
  have x: "Number (Some ''x'') = NaN" by (simp add: Number_def parse_defs)
  have i: "(1::nat) < 3" by simp
  from t have a: "rowsA badDocA ! 1 = tradeOfRowA (badDocA ! 1)"
      "rowsB badDocA ! 1 = tradeOfRowB (badDocA ! 1)"
    using badDocA_rows(1) i by metis+
  from t have "shares (tradeOfRowA (tradeRowA ''x'' ''n/a'' ''False'')) = NaN"
    "pnl (tradeOfRowA (tradeRowA ''x'' ''n/a'' ''False'')) = NaN"
    "pnl (tradeOfRowB (tradeRowA ''x'' ''n/a'' ''False'')) = NaN"
    "recovery (tradeOfRowA (tradeRowA ''x'' ''n/a'' ''False'')) = False"
    using x by (simp_all add: tradeRowA_fields)
  moreover from t0 have "recovery (tradeOfRowA (tradeRowA ''1'' ''10'' ''True'')) = True"
    by (simp add: tradeRowA_fields)
  moreover from t have "length (rowsA badDocA) = 3" by (simp add: badDocA_rows)
  ultimately show ?thesis using a by (simp add: badDocA_rows)
qed



section \<open>The initial window\<close>

lemma startIndex_eq:
  "startIndex chartData = int (length chartData) - min 150 (int (length chartData))"
  by (simp add: startIndex_def displayCount_def)

lemma xExtents_nonempty:
  assumes "chartData \<noteq> []"
  shows "xExtents xAccessor chartData =
           Some (xAccessor (chartData ! (length chartData - min 150 (length chartData))),
                 xAccessor (chartData ! (length chartData - 1)))"
proof -
  let ?n = "length chartData"
  from assms have n: "0 < ?n" by simp
  have s: "nat (startIndex chartData) = ?n - min 150 ?n"
    unfolding startIndex_eq by (auto simp: min_def nat_diff_distrib')
  have s0: "0 \<le> startIndex chartData" "startIndex chartData < int ?n"
    unfolding startIndex_eq using n by (simp_all add: min_def)
  have l: "nat (int ?n - 1) = ?n - 1" by simp
  show ?thesis
    unfolding xExtents_def arrayGet_def using s0 n s l by simp
qed

text \<open>
  C7. When the data is not empty the chart is drawn with the extents from the record at
  index \<open>n - min 150 n\<close> to the last record of the \<open>n\<close> records of \<open>chartData\<close>, so that
  they span the last \<open>min 150 n\<close> records: indexes 50 and 199 for 200 records, and every
  record from index 0 on when there are 150 or fewer, such as 80.
\<close>

theorem initial_window:
  "data \<noteq> [] \<and> scale data \<noteq> [] \<longrightarrow>
     ChartApp scale xAccessor data =
       Chart (Some (xAccessor (scale data ! (length (scale data) - min 150 (length (scale data)))),
                    xAccessor (scale data ! (length (scale data) - 1)))) \<and>
     length (drop (length (scale data) - min 150 (length (scale data))) (scale data)) =
       min 150 (length (scale data)) \<and>
     (length (scale data) = 200 \<longrightarrow>
        ChartApp scale xAccessor data =
          Chart (Some (xAccessor (scale data ! 50), xAccessor (scale data ! 199)))) \<and>
     (length (scale data) \<le> 150 \<longrightarrow>
        ChartApp scale xAccessor data =
          Chart (Some (xAccessor (scale data ! 0),
                       xAccessor (scale data ! (length (scale data) - 1))))) \<and>
     (length (scale data) = 80 \<longrightarrow>
        ChartApp scale xAccessor data =
          Chart (Some (xAccessor (scale data ! 0), xAccessor (scale data ! 79))))"
proof (intro impI)
  assume a: "data \<noteq> [] \<and> scale data \<noteq> []"
  then have c: "ChartApp scale xAccessor data = Chart (xExtents xAccessor (scale data))"
    by (simp add: ChartApp_def)
  from a have x: "xExtents xAccessor (scale data) =
      Some (xAccessor (scale data ! (length (scale data) - min 150 (length (scale data)))),
            xAccessor (scale data ! (length (scale data) - 1)))"
    by (simp add: xExtents_nonempty)
  show "ChartApp scale xAccessor data =
       Chart (Some (xAccessor (scale data ! (length (scale data) - min 150 (length (scale data)))),
                    xAccessor (scale data ! (length (scale data) - 1)))) \<and>
     length (drop (length (scale data) - min 150 (length (scale data))) (scale data)) =
       min 150 (length (scale data)) \<and>
     (length (scale data) = 200 \<longrightarrow>
        ChartApp scale xAccessor data =
          Chart (Some (xAccessor (scale data ! 50), xAccessor (scale data ! 199)))) \<and>
     (length (scale data) \<le> 150 \<longrightarrow>
        ChartApp scale xAccessor data =
          Chart (Some (xAccessor (scale data ! 0),
                       xAccessor (scale data ! (length (scale data) - 1))))) \<and>
     (length (scale data) = 80 \<longrightarrow>
        ChartApp scale xAccessor data =
          Chart (Some (xAccessor (scale data ! 0), xAccessor (scale data ! 79))))"
    unfolding c x by (auto simp: min_def)
qed

theorem initial_window_witness:
  "map (\<lambda>i. bar (int i) 1) [0..<200] \<noteq> [] \<and>
   length (map (\<lambda>i. bar (int i) 1) [0..<200]) = 200 \<and>
   ChartApp (\<lambda>d. d) timestamp (map (\<lambda>i. bar (int i) 1) [0..<200]) = Chart (Some (50, 199)) \<and>
   length (map (\<lambda>i. bar (int i) 1) [0..<80]) = 80 \<and>
   ChartApp (\<lambda>d. d) timestamp (map (\<lambda>i. bar (int i) 1) [0..<80]) = Chart (Some (0, 79))"
proof -
  have t: "timestamp (bar t c) = t" for t c by (simp add: timestamp_def bar_def)
  have ne: "map (\<lambda>i. bar (int i) 1) [0..<200] \<noteq> []" "map (\<lambda>i. bar (int i) 1) [0..<80] \<noteq> []"
    by (simp_all add: upt_conv_Nil)
  from initial_window [of "map (\<lambda>i. bar (int i) 1) [0..<200]" "\<lambda>d. d" timestamp] ne
  have "ChartApp (\<lambda>d. d) timestamp (map (\<lambda>i. bar (int i) 1) [0..<200]) = Chart (Some (50, 199))"
    by (simp add: t)
  moreover
  from initial_window [of "map (\<lambda>i. bar (int i) 1) [0..<80]" "\<lambda>d. d" timestamp] ne
  have "ChartApp (\<lambda>d. d) timestamp (map (\<lambda>i. bar (int i) 1) [0..<80]) = Chart (Some (0, 79))"
    by (simp add: t)
  ultimately show ?thesis using ne by simp
qed

section \<open>The guard of the summary\<close>

lemma renderWith_empty: "st_equity st = [] \<Longrightarrow> renderWith p st = Inr LoadingData"
  by (simp add: renderWith_def)

lemma arrayGet_last: "xs \<noteq> [] \<Longrightarrow> arrayGet xs (int (length xs) - 1) = Some (last xs)"
  by (simp add: arrayGet_def last_conv_nth nat_diff_distrib')

lemma renderWith_nonempty:
  "st_equity st \<noteq> [] \<Longrightarrow>
   renderWith p st =
     Inr (Dashboard \<lparr> totalTrades = length (st_trades st),
                       winRate = winRateOf (st_trades st),
                       totalPnL = toFixed p (equity (last (st_equity st))) \<rparr>)"
  by (simp add: renderWith_def arrayGet_last)

lemma equityScan_Nil_iff: "equityScan f c ts = [] \<longleftrightarrow> ts = []"
  by (cases ts) (simp_all add: Let_def)

lemma statesA_guarded:
  "st \<in> set (statesA fetched) \<Longrightarrow> st_equity st \<noteq> [] \<Longrightarrow> st_trades st \<noteq> []"
  by (auto simp: statesA_def initialState_def equityRowsA_def equityScan_Nil_iff
      split: option.splits)

lemma statesB_guarded:
  "st \<in> set (statesB fetched) \<Longrightarrow> st_equity st \<noteq> [] \<Longrightarrow> st_trades st \<noteq> []"
  by (auto simp: statesB_def initialState_def equityRowsB_def equityScan_Nil_iff
      split: option.splits)

text \<open>
  C8. In every state either viewer passes through, rendering raises no fault. While the
  equity sequence is empty the loading view is returned and no summary is computed; a
  summary is computed only in a state whose trade sequence is not empty, so the win rate
  never divides by a zero count and the last equity point exists. For a document of zero
  trades every render is the loading view.
\<close>

theorem summary_guard:
  "(\<forall>st \<in> set (statesA fetched).
      (st_equity st = [] \<longrightarrow> renderA st = Inr LoadingData) \<and>
      (st_equity st \<noteq> [] \<longrightarrow> st_trades st \<noteq> [] \<and>
         arrayGet (st_equity st) (int (length (st_equity st)) - 1) = Some (last (st_equity st)) \<and>
         (\<exists>s. renderA st = Inr (Dashboard s)))) \<and>
   (\<forall>st \<in> set (statesB fetched).
      (st_equity st = [] \<longrightarrow> renderB st = Inr LoadingData) \<and>
      (st_equity st \<noteq> [] \<longrightarrow> st_trades st \<noteq> [] \<and>
         arrayGet (st_equity st) (int (length (st_equity st)) - 1) = Some (last (st_equity st)) \<and>
         (\<exists>s. renderB st = Inr (Dashboard s)))) \<and>
   (\<forall>st \<in> set (statesA (Some [])). renderA st = Inr LoadingData) \<and>
   (\<forall>st \<in> set (statesB (Some [])). renderB st = Inr LoadingData)"
proof -
  have a: "\<forall>st \<in> set (statesA fetched).
      (st_equity st = [] \<longrightarrow> renderA st = Inr LoadingData) \<and>
      (st_equity st \<noteq> [] \<longrightarrow> st_trades st \<noteq> [] \<and>
         arrayGet (st_equity st) (int (length (st_equity st)) - 1) = Some (last (st_equity st)) \<and>
         (\<exists>s. renderA st = Inr (Dashboard s)))"
    unfolding renderA_def
    by (auto simp: renderWith_empty renderWith_nonempty arrayGet_last dest: statesA_guarded)
  have b: "\<forall>st \<in> set (statesB fetched).
      (st_equity st = [] \<longrightarrow> renderB st = Inr LoadingData) \<and>
      (st_equity st \<noteq> [] \<longrightarrow> st_trades st \<noteq> [] \<and>
         arrayGet (st_equity st) (int (length (st_equity st)) - 1) = Some (last (st_equity st)) \<and>
         (\<exists>s. renderB st = Inr (Dashboard s)))"
    unfolding renderB_def
    by (auto simp: renderWith_empty renderWith_nonempty arrayGet_last dest: statesB_guarded)
  have c: "\<forall>st \<in> set (statesA (Some [])). renderA st = Inr LoadingData"
    by (simp add: statesA_def initialState_def rowsA_def equityRowsA_def renderA_def
        renderWith_empty)
  have d: "\<forall>st \<in> set (statesB (Some [])). renderB st = Inr LoadingData"
    by (simp add: statesB_def initialState_def rowsB_def equityRowsB_def renderB_def
        renderWith_empty)
  from a b c d show ?thesis by blast
qed

theorem summary_guard_witness:
  "\<lparr> st_trades = rowsA docA, st_equity = [] \<rparr> \<in> set (statesA (Some docA)) \<and>
   renderA \<lparr> st_trades = rowsA docA, st_equity = [] \<rparr> = Inr LoadingData \<and>
   \<lparr> st_trades = rowsA docA, st_equity = equityRowsA (rowsA docA) \<rparr> \<in> set (statesA (Some docA)) \<and>
   equityRowsA (rowsA docA) \<noteq> [] \<and> rowsA docA \<noteq> [] \<and>
   (\<exists>s. renderA \<lparr> st_trades = rowsA docA, st_equity = equityRowsA (rowsA docA) \<rparr> =
      Inr (Dashboard s)) \<and>
   \<lparr> st_trades = rowsB docB, st_equity = equityRowsB (rowsB docB) \<rparr> \<in> set (statesB (Some docB)) \<and>
   equityRowsB (rowsB docB) \<noteq> [] \<and> rowsB docB \<noteq> [] \<and>
   (\<exists>s. renderB \<lparr> st_trades = rowsB docB, st_equity = equityRowsB (rowsB docB) \<rparr> =
      Inr (Dashboard s)) \<and>
   \<lparr> st_trades = rowsA [], st_equity = equityRowsA (rowsA []) \<rparr> \<in> set (statesA (Some [])) \<and>
   renderA \<lparr> st_trades = rowsA [], st_equity = equityRowsA (rowsA []) \<rparr> = Inr LoadingData \<and>
   \<lparr> st_trades = rowsB [], st_equity = equityRowsB (rowsB []) \<rparr> \<in> set (statesB (Some [])) \<and>
   renderB \<lparr> st_trades = rowsB [], st_equity = equityRowsB (rowsB []) \<rparr> = Inr LoadingData"
proof -
  note g = summary_guard [of "Some docA"]
  note h = summary_guard [of "Some docB"]
  have m1: "\<lparr> st_trades = rowsA docA, st_equity = [] \<rparr> \<in> set (statesA (Some docA))"
    and m2: "\<lparr> st_trades = rowsA docA, st_equity = equityRowsA (rowsA docA) \<rparr>
               \<in> set (statesA (Some docA))"
    and m3: "\<lparr> st_trades = rowsB docB, st_equity = equityRowsB (rowsB docB) \<rparr>
               \<in> set (statesB (Some docB))"
    and m4: "\<lparr> st_trades = rowsA [], st_equity = equityRowsA (rowsA []) \<rparr>
               \<in> set (statesA (Some []))"
    and m5: "\<lparr> st_trades = rowsB [], st_equity = equityRowsB (rowsB []) \<rparr>
               \<in> set (statesB (Some []))"
    by (simp_all add: statesA_def statesB_def)
  have ne0: "rowsA docA \<noteq> []" "rowsB docB \<noteq> []"
    by (simp_all add: rowsA_def rowsB_def docA_def docB_def)
  then have ne: "equityRowsA (rowsA docA) \<noteq> []" "equityRowsB (rowsB docB) \<noteq> []"
    unfolding equityRowsA_def equityRowsB_def by (simp_all only: equityScan_Nil_iff not_False_eq_True)
  from g m1 have r1: "renderA \<lparr> st_trades = rowsA docA, st_equity = [] \<rparr> = Inr LoadingData"
    by fastforce
  from g m2 ne have r2: "rowsA docA \<noteq> [] \<and>
      (\<exists>s. renderA \<lparr> st_trades = rowsA docA, st_equity = equityRowsA (rowsA docA) \<rparr> =
        Inr (Dashboard s))"
    by fastforce
  from h m3 ne have r3: "rowsB docB \<noteq> [] \<and>
      (\<exists>s. renderB \<lparr> st_trades = rowsB docB, st_equity = equityRowsB (rowsB docB) \<rparr> =
        Inr (Dashboard s))"
    by fastforce
  from g m4 have r4: "renderA \<lparr> st_trades = rowsA [], st_equity = equityRowsA (rowsA []) \<rparr> =
      Inr LoadingData"
    by blast
  from g m5 have r5: "renderB \<lparr> st_trades = rowsB [], st_equity = equityRowsB (rowsB []) \<rparr> =
      Inr LoadingData"
    by blast
  from m1 m2 m3 m4 m5 ne r1 r2 r3 r4 r5 show ?thesis by blast
qed

section \<open>The series orderer\<close>

lemma keepRow_hasValidDate: "keepRow r \<Longrightarrow> hasValidDate r"
  by (auto simp: keepRow_def hasValidDate_def split: option.splits jsdate.splits)

lemma byDate_valid:
  assumes "hasValidDate a" "hasValidDate b"
  shows "jsgt0 (byDate a b) \<longleftrightarrow> timestamp b < timestamp a"
  using assms
  by (auto simp: byDate_def dateToNumber_def timeDifference_gt0 timestamp_def hasValidDate_def
      split: option.splits jsdate.splits)

lemma insertBy_insort_key:
  assumes "hasValidDate x" "\<forall>y \<in> set ys. hasValidDate y"
  shows "insertBy byDate x ys = insort_key timestamp x ys"
  using assms by (induction ys) (auto simp: byDate_valid)

lemma arraySort_sort_key:
  assumes "\<forall>x \<in> set xs. hasValidDate x"
  shows "arraySort byDate xs = sort_key timestamp xs"
  using assms
proof (induction xs)
  case Nil
  then show ?case by (simp add: arraySort_def)
next
  case (Cons x xs)
  then have "arraySort byDate xs = sort_key timestamp xs" by simp
  moreover from Cons.prems have "\<forall>y \<in> set (sort_key timestamp xs). hasValidDate y" by simp
  ultimately show ?case
    using Cons.prems by (simp add: arraySort_def sort_key_def insertBy_insort_key)
qed

text \<open>
  C6. For every sequence of normalized price records, the series orderer returns them
  sorted by ascending timestamp; the result is a permutation of the input, and records
  with equal timestamps keep their input order. This holds for what \<open>parseCSV\<close> returns,
  whatever the document.
\<close>

theorem series_orderer:
  "(\<forall>r \<in> set xs. keepRow r) \<longrightarrow>
     sorted (map timestamp (arraySort byDate xs)) \<and>
     (\<forall>i. Suc i < length (arraySort byDate xs) \<longrightarrow>
        timestamp (arraySort byDate xs ! i) \<le> timestamp (arraySort byDate xs ! Suc i)) \<and>
     mset (arraySort byDate xs) = mset xs \<and>
     (\<forall>t. filter (\<lambda>r. timestamp r = t) (arraySort byDate xs) =
           filter (\<lambda>r. timestamp r = t) xs) \<and>
     sorted (map timestamp (parseCSV newDate rows)) \<and>
     mset (parseCSV newDate rows) = mset (raw newDate rows) \<and>
     (\<forall>t. filter (\<lambda>r. timestamp r = t) (parseCSV newDate rows) =
           filter (\<lambda>r. timestamp r = t) (raw newDate rows))"
proof
  assume k: "\<forall>r \<in> set xs. keepRow r"
  then have v: "\<forall>r \<in> set xs. hasValidDate r" by (blast intro: keepRow_hasValidDate)
  have e: "arraySort byDate xs = sort_key timestamp xs"
    using v by (rule arraySort_sort_key)
  have "\<forall>r \<in> set (raw newDate rows). hasValidDate r"
    by (auto simp: raw_def intro: keepRow_hasValidDate)
  then have p: "parseCSV newDate rows = sort_key timestamp (raw newDate rows)"
    unfolding parseCSV_def by (rule arraySort_sort_key)
  have s: "sorted (map timestamp (sort_key timestamp xs))" by (rule sorted_sort_key)
  have n: "\<forall>i. Suc i < length (sort_key timestamp xs) \<longrightarrow>
      timestamp (sort_key timestamp xs ! i) \<le> timestamp (sort_key timestamp xs ! Suc i)"
  proof (intro allI impI)
    fix i
    assume i: "Suc i < length (sort_key timestamp xs)"
    then have "map timestamp (sort_key timestamp xs) ! i \<le> map timestamp (sort_key timestamp xs) ! Suc i"
      using s by (simp add: sorted_iff_nth_Suc del: length_sort)
    with i show "timestamp (sort_key timestamp xs ! i) \<le> timestamp (sort_key timestamp xs ! Suc i)"
      by (simp del: length_sort)
  qed
  show "sorted (map timestamp (arraySort byDate xs)) \<and>
     (\<forall>i. Suc i < length (arraySort byDate xs) \<longrightarrow>
        timestamp (arraySort byDate xs ! i) \<le> timestamp (arraySort byDate xs ! Suc i)) \<and>
     mset (arraySort byDate xs) = mset xs \<and>
     (\<forall>t. filter (\<lambda>r. timestamp r = t) (arraySort byDate xs) =
           filter (\<lambda>r. timestamp r = t) xs) \<and>
     sorted (map timestamp (parseCSV newDate rows)) \<and>
     mset (parseCSV newDate rows) = mset (raw newDate rows) \<and>
     (\<forall>t. filter (\<lambda>r. timestamp r = t) (parseCSV newDate rows) =
           filter (\<lambda>r. timestamp r = t) (raw newDate rows))"
    unfolding e p using s n by (simp add: sort_key_stable sorted_sort_key)
qed

lemma keepRow_bar: "keepRow (bar t c)"
  by (simp add: keepRow_def bar_def)

lemma timestamp_bar: "timestamp (bar t c) = t"
  by (simp add: timestamp_def bar_def)

theorem series_orderer_witness:
  "list_all keepRow sampleBars \<and>
   arraySort byDate sampleBars = [bar 1 2, bar 2 4, bar 3 1, bar 3 3] \<and>
   sorted (map timestamp (arraySort byDate sampleBars)) \<and>
   mset (arraySort byDate sampleBars) = mset sampleBars \<and>
   filter (\<lambda>r. timestamp r = 3) (arraySort byDate sampleBars) = [bar 3 1, bar 3 3]"
proof -
  have k: "\<forall>r \<in> set sampleBars. keepRow r"
    by (simp add: sampleBars_def keepRow_bar)
  have f: "filter (\<lambda>r. timestamp r = 3) sampleBars = [bar 3 1, bar 3 3]"
    by (simp add: sampleBars_def timestamp_bar)
  have b: "jsgt0 (byDate (bar t c) (bar u d)) \<longleftrightarrow> u < t" for t c u d
    by (simp add: byDate_def dateToNumber_def timeDifference_gt0 bar_def)
  have a: "arraySort byDate sampleBars = [bar 1 2, bar 2 4, bar 3 1, bar 3 3]"
    by (simp add: arraySort_def sampleBars_def b)
  from series_orderer [of sampleBars] k f a show ?thesis by (simp add: list_all_iff)
qed

section \<open>The price normalizer\<close>

lemma getTime_NaN: "isNaN (getTime dt) \<longleftrightarrow> dt = InvalidDate"
  by (cases dt) simp_all

lemma keepRow_ohlcvOfRow: "keepRow (ohlcvOfRow newDate d) = wellFormedRow newDate d"
  by (cases "d ''Date''"; cases "d ''Open''"; cases "d ''High''"; cases "d ''Low''";
      cases "d ''Close''"; cases "d ''Volume''")
     (auto simp: keepRow_def ohlcvOfRow_def wellFormedRow_def whenPresent_def numericField_def
        dateField_def getTime_NaN)

lemma raw_eq: "raw newDate rows = map (ohlcvOfRow newDate) (filter (wellFormedRow newDate) rows)"
  by (simp add: raw_def filter_map comp_def keepRow_ohlcvOfRow)

lemma raw_kept: "r \<in> set (raw newDate rows) \<Longrightarrow> keepRow r"
  by (simp add: raw_def)

lemma parseCSV_sort_key: "parseCSV newDate rows = sort_key timestamp (raw newDate rows)"
  unfolding parseCSV_def
  by (rule arraySort_sort_key) (blast intro: keepRow_hasValidDate raw_kept)

lemmas date_defs = isoDate_def daysFromCivil_def daysInMonth_def isLeap_def isDigit_def
  decVal_def digitVal_def Let_def

lemma isoDate_samples:
  "isoDate ''2024-01-01'' = ValidDate 1704067200000"
  "isoDate ''2024-01-02'' = ValidDate 1704153600000"
  "isoDate ''2024-01-03'' = ValidDate 1704240000000"
  "isoDate ''garbage'' = InvalidDate"
  by (simp_all add: date_defs)

lemma priceRow_fields:
  "priceRow d c v ''Date'' = Some d" "priceRow d c v ''Open'' = Some ''1''"
  "priceRow d c v ''High'' = Some ''2''" "priceRow d c v ''Low'' = Some ''0.5''"
  "priceRow d c v ''Close'' = Some c" "priceRow d c v ''Volume'' = Some v"
  by (simp_all add: priceRow_def)

lemma parse_samples:
  "parseFloat ''1'' = Fin 1" "parseFloat ''2'' = Fin 2" "parseFloat ''0.5'' = Fin (1 / 2)"
  "parseFloat ''1.5'' = Fin (3 / 2)" "parseFloat ''1.25'' = Fin (5 / 4)"
  "parseFloat ''Infinity'' = PInf"
  "parseInt10 ''10'' = Fin 10" "parseInt10 ''12'' = Fin 12" "parseInt10 ''-5'' = Fin (- 5)"
  by (simp_all add: prefix_defs parse_defs)

lemmas row_eval = ohlcvOfRow_def whenPresent_def priceRow_fields parse_samples isoDate_samples
  keepRow_def

text \<open>
  C2 as the specification states it fails: a row whose volume is the text -5 passes the
  filter, and its record has a negative volume.
\<close>

theorem ohlcv_invariant_counterexample:
  "parseCSV isoDate [priceRow ''2024-01-02'' ''1.5'' ''-5''] =
     [\<lparr> date = Some (ValidDate 1704153600000), open' = Fin 1, high = Fin 2,
        low = Fin (1 / 2), close = Fin (3 / 2), volume = Fin (- 5) \<rparr>] \<and>
   \<not> ohlcvInvariant \<lparr> date = Some (ValidDate 1704153600000), open' = Fin 1, high = Fin 2,
        low = Fin (1 / 2), close = Fin (3 / 2), volume = Fin (- 5) \<rparr>"
  by (simp add: parseCSV_def raw_def arraySort_def row_eval ohlcvInvariant_def)

text \<open>
  C2, amended. The normalized sequence is the image, in order, of exactly the well-formed
  rows, and \<open>parseCSV\<close> returns a permutation of it; a row with an empty Volume or with a
  Date that is not a real date is not well formed; and every record returned has a valid
  date and no field that is not-a-number.
\<close>

theorem ohlcv_filter:
  "raw newDate rows = map (ohlcvOfRow newDate) (filter (wellFormedRow newDate) rows) \<and>
   mset (parseCSV newDate rows) = mset (raw newDate rows) \<and>
   (d ''Volume'' = Some [] \<longrightarrow> \<not> wellFormedRow newDate d) \<and>
   (\<forall>s. d ''Date'' = Some s \<and> newDate s = InvalidDate \<longrightarrow> \<not> wellFormedRow newDate d) \<and>
   (\<forall>r \<in> set (parseCSV newDate rows).
      hasValidDate r \<and> \<not> isNaN (open' r) \<and> \<not> isNaN (high r) \<and> \<not> isNaN (low r) \<and>
      \<not> isNaN (close r) \<and> \<not> isNaN (volume r))"
proof -
  have a: "d ''Volume'' = Some [] \<longrightarrow> \<not> wellFormedRow newDate d"
    by (simp add: wellFormedRow_def numericField_def)
  have b: "\<forall>s. d ''Date'' = Some s \<and> newDate s = InvalidDate \<longrightarrow> \<not> wellFormedRow newDate d"
    by (simp add: wellFormedRow_def dateField_def)
  have c: "\<forall>r \<in> set (parseCSV newDate rows).
      hasValidDate r \<and> \<not> isNaN (open' r) \<and> \<not> isNaN (high r) \<and> \<not> isNaN (low r) \<and>
      \<not> isNaN (close r) \<and> \<not> isNaN (volume r)"
  proof
    fix r
    assume "r \<in> set (parseCSV newDate rows)"
    then have k: "keepRow r" by (simp add: parseCSV_sort_key raw_kept)
    then have "hasValidDate r" by (rule keepRow_hasValidDate)
    with k show "hasValidDate r \<and> \<not> isNaN (open' r) \<and> \<not> isNaN (high r) \<and> \<not> isNaN (low r) \<and>
      \<not> isNaN (close r) \<and> \<not> isNaN (volume r)"
      by (simp add: keepRow_def)
  qed
  from a b c show ?thesis by (simp add: raw_eq parseCSV_sort_key)
qed

lemma priceDoc_wf:
  "wellFormedRow isoDate (priceRow ''2024-01-03'' ''1.5'' ''10'')"
  "\<not> wellFormedRow isoDate (priceRow ''2024-01-02'' ''1.5'' [])"
  "\<not> wellFormedRow isoDate (priceRow ''garbage'' ''1.5'' ''10'')"
  "wellFormedRow isoDate (priceRow ''2024-01-01'' ''1.25'' ''12'')"
  by (simp_all add: wellFormedRow_def numericField_def dateField_def priceRow_fields
      parse_samples isoDate_samples)

theorem ohlcv_filter_witness:
  "priceRow ''2024-01-02'' ''1.5'' [] ''Volume'' = Some [] \<and>
   \<not> wellFormedRow isoDate (priceRow ''2024-01-02'' ''1.5'' []) \<and>
   priceRow ''garbage'' ''1.5'' ''10'' ''Date'' = Some ''garbage'' \<and>
   isoDate ''garbage'' = InvalidDate \<and>
   \<not> wellFormedRow isoDate (priceRow ''garbage'' ''1.5'' ''10'') \<and>
   raw isoDate priceDoc =
     [ohlcvOfRow isoDate (priceRow ''2024-01-03'' ''1.5'' ''10''),
      ohlcvOfRow isoDate (priceRow ''2024-01-01'' ''1.25'' ''12'')] \<and>
   parseCSV isoDate priceDoc =
     [\<lparr> date = Some (ValidDate 1704067200000), open' = Fin 1, high = Fin 2,
        low = Fin (1 / 2), close = Fin (5 / 4), volume = Fin 12 \<rparr>,
      \<lparr> date = Some (ValidDate 1704240000000), open' = Fin 1, high = Fin 2,
        low = Fin (1 / 2), close = Fin (3 / 2), volume = Fin 10 \<rparr>] \<and>
   list_all (\<lambda>r. hasValidDate r \<and> \<not> isNaN (volume r)) (parseCSV isoDate priceDoc)"
proof -
  note t1 = ohlcv_filter [of isoDate priceDoc "priceRow ''2024-01-02'' ''1.5'' []"]
  note t2 = ohlcv_filter [of isoDate priceDoc "priceRow ''garbage'' ''1.5'' ''10''"]
  from t1 have r: "raw isoDate priceDoc =
     [ohlcvOfRow isoDate (priceRow ''2024-01-03'' ''1.5'' ''10''),
      ohlcvOfRow isoDate (priceRow ''2024-01-01'' ''1.25'' ''12'')]"
    by (simp add: priceDoc_def priceDoc_wf)
  have b: "jsgt0 (byDate \<lparr> date = Some (ValidDate t), open' = o1, high = h1, low = l1,
        close = c1, volume = v1 \<rparr> \<lparr> date = Some (ValidDate u), open' = o2, high = h2, low = l2,
        close = c2, volume = v2 \<rparr>) \<longleftrightarrow> u < t" for t u o1 h1 l1 c1 v1 o2 h2 l2 c2 v2
    by (simp add: byDate_def dateToNumber_def timeDifference_gt0)
  have p: "parseCSV isoDate priceDoc =
     [\<lparr> date = Some (ValidDate 1704067200000), open' = Fin 1, high = Fin 2,
        low = Fin (1 / 2), close = Fin (5 / 4), volume = Fin 12 \<rparr>,
      \<lparr> date = Some (ValidDate 1704240000000), open' = Fin 1, high = Fin 2,
        low = Fin (1 / 2), close = Fin (3 / 2), volume = Fin 10 \<rparr>]"
    unfolding parseCSV_def r by (simp add: arraySort_def row_eval b)
  from t1 have w1: "\<not> wellFormedRow isoDate (priceRow ''2024-01-02'' ''1.5'' [])"
    by (simp add: priceRow_fields)
  from t2 have w2: "\<not> wellFormedRow isoDate (priceRow ''garbage'' ''1.5'' ''10'')"
    by (simp add: priceRow_fields isoDate_samples)
  from t1 have v: "list_all (\<lambda>r. hasValidDate r \<and> \<not> isNaN (volume r))
      (parseCSV isoDate priceDoc)"
    unfolding list_all_iff by blast
  from r p w1 w2 v show ?thesis by (simp add: priceRow_fields isoDate_samples)
qed

section \<open>Rounding through text\<close>

lemma digit_cases:
  "d < 10 \<Longrightarrow> d = 0 \<or> d = 1 \<or> d = 2 \<or> d = 3 \<or> d = 4 \<or> d = 5 \<or> d = 6 \<or> d = 7 \<or> d = 8 \<or> d = (9::nat)"
  by arith

lemma digitChar_isDigit: "d < 10 \<Longrightarrow> isDigit (digitChar d)"
  by (drule digit_cases) (auto simp: digitChar_def isDigit_def)

lemma digitVal_digitChar: "d < 10 \<Longrightarrow> digitVal (digitChar d) = d"
  by (drule digit_cases) (auto simp: digitChar_def digitVal_def)

lemma decVal_foldl:
  "foldl (\<lambda>a c. 10 * a + digitVal c) a xs = a * 10 ^ length xs + decVal xs"
proof -
  define f where "f = (\<lambda>(a::nat) c. 10 * a + digitVal c)"
  have "foldl f a xs = a * 10 ^ length xs + foldl f 0 xs"
  proof (induction xs arbitrary: a)
    case Nil
    then show ?case by simp
  next
    case (Cons x xs)
    have 1: "foldl f (f a x) xs = f a x * 10 ^ length xs + foldl f 0 xs" by (rule Cons.IH)
    have 2: "foldl f (f 0 x) xs = f 0 x * 10 ^ length xs + foldl f 0 xs" by (rule Cons.IH)
    have 3: "f a x = 10 * a + f 0 x" by (simp add: f_def)
    show ?case
      by (simp only: foldl_Cons 1 2) (simp add: 3 algebra_simps)
  qed
  then show ?thesis by (simp add: f_def decVal_def)
qed

lemma decVal_append: "decVal (xs @ ys) = decVal xs * 10 ^ length ys + decVal ys"
proof -
  have "decVal (xs @ ys) = foldl (\<lambda>a c. 10 * a + digitVal c) (decVal xs) ys"
    by (simp add: decVal_def)
  then show ?thesis by (simp only: decVal_foldl)
qed

lemma decVal_Nil: "decVal [] = 0"
  by (simp add: decVal_def)

lemma decVal_single: "decVal [c] = digitVal c"
  by (simp add: decVal_def)

lemma decVal_zeros: "decVal (replicate k (CHR ''0'')) = 0"
  by (induction k) (simp_all add: decVal_def digitVal_def)

lemma digitsOf_nonempty: "digitsOf n \<noteq> []"
  by (subst digitsOf.simps) simp

lemma digitsOf_digits: "list_all isDigit (digitsOf n)"
proof (induction n rule: digitsOf.induct)
  case (1 n)
  show ?case
  proof (cases "n < 10")
    case True
    have "digitsOf n = [digitChar n]" using True by (rule digitsOf_small)
    moreover have "isDigit (digitChar n)" using True by (rule digitChar_isDigit)
    ultimately show ?thesis by simp
  next
    case False
    have e: "digitsOf n = digitsOf (n div 10) @ [digitChar (n mod 10)]"
      using False by (rule digitsOf_big)
    have i: "list_all isDigit (digitsOf (n div 10))" using False by (rule 1)
    have d: "isDigit (digitChar (n mod 10))" by (rule digitChar_isDigit) simp
    show ?thesis unfolding e using i d by simp
  qed
qed

lemma decVal_digitsOf: "decVal (digitsOf n) = n"
proof (induction n rule: digitsOf.induct)
  case (1 n)
  show ?case
  proof (cases "n < 10")
    case True
    have "digitsOf n = [digitChar n]" using True by (rule digitsOf_small)
    moreover have "digitVal (digitChar n) = n" using True by (rule digitVal_digitChar)
    ultimately show ?thesis by (simp add: decVal_single)
  next
    case False
    have e: "digitsOf n = digitsOf (n div 10) @ [digitChar (n mod 10)]"
      using False by (rule digitsOf_big)
    have i: "decVal (digitsOf (n div 10)) = n div 10" using False by (rule 1)
    have d: "digitVal (digitChar (n mod 10)) = n mod 10" by (rule digitVal_digitChar) simp
    show ?thesis unfolding e by (simp add: decVal_append decVal_single i d)
  qed
qed

lemma takeWhile_digits:
  "list_all isDigit a \<Longrightarrow> \<not> isDigit c \<Longrightarrow> takeWhile isDigit (a @ c # b) = a"
  by (induction a) simp_all

lemma dropWhile_digits:
  "list_all isDigit a \<Longrightarrow> \<not> isDigit c \<Longrightarrow> dropWhile isDigit (a @ c # b) = c # b"
  by (induction a) simp_all

lemma takeWhile_all_digits: "list_all isDigit a \<Longrightarrow> takeWhile isDigit a = a"
  by (induction a) simp_all

lemma dropWhile_all_digits: "list_all isDigit a \<Longrightarrow> dropWhile isDigit a = []"
  by (induction a) simp_all

lemma dropWhile_hd: "xs \<noteq> [] \<Longrightarrow> \<not> P (hd xs) \<Longrightarrow> dropWhile P xs = xs"
  by (cases xs) simp_all

lemma trim_id:
  assumes "s \<noteq> []" "\<not> isWhiteSpace (hd s)" "\<not> isWhiteSpace (last s)"
  shows "trim s = s"
proof -
  have 1: "dropWhile isWhiteSpace s = s" using assms(1,2) by (rule dropWhile_hd)
  have "rev s \<noteq> []" "\<not> isWhiteSpace (hd (rev s))" using assms by (simp_all add: hd_rev)
  then have 2: "dropWhile isWhiteSpace (rev s) = rev s" by (rule dropWhile_hd)
  show ?thesis by (simp add: trim_def 1 2)
qed

lemma not_dot_digit: "\<not> isDigit (CHR ''.'')"
  by (simp add: isDigit_def)

lemma digit_not_white: "isDigit c \<Longrightarrow> \<not> isWhiteSpace c"
  by (auto simp: isDigit_def isWhiteSpace_def)

lemma digit_not_sign: "isDigit c \<Longrightarrow> c \<noteq> CHR ''+'' \<and> c \<noteq> CHR ''-'' \<and> c \<noteq> CHR ''I''"
  by (auto simp: isDigit_def)

lemma digit_not_radix:
  "isDigit c \<or> c = CHR ''.'' \<Longrightarrow>
   c \<noteq> CHR ''x'' \<and> c \<noteq> CHR ''X'' \<and> c \<noteq> CHR ''o'' \<and> c \<noteq> CHR ''O'' \<and>
   c \<noteq> CHR ''b'' \<and> c \<noteq> CHR ''B''"
  by (auto simp: isDigit_def)

lemma nonDecimal_None:
  assumes "\<forall>c \<in> set s. isDigit c \<or> c = CHR ''.''"
  shows "nonDecimalIntegerLiteral s = None"
proof (cases s)
  case Nil
  then show ?thesis by (simp add: nonDecimalIntegerLiteral_def)
next
  case (Cons c0 t)
  show ?thesis
  proof (cases t)
    case Nil
    with Cons show ?thesis by (simp add: nonDecimalIntegerLiteral_def)
  next
    case (Cons c1 ds)
    with \<open>s = c0 # t\<close> assms have "isDigit c1 \<or> c1 = CHR ''.''" by simp
    then have "c1 \<noteq> CHR ''x'' \<and> c1 \<noteq> CHR ''X'' \<and> c1 \<noteq> CHR ''o'' \<and> c1 \<noteq> CHR ''O'' \<and>
      c1 \<noteq> CHR ''b'' \<and> c1 \<noteq> CHR ''B''" by (rule digit_not_radix)
    with Cons \<open>s = c0 # t\<close> show ?thesis by (simp add: nonDecimalIntegerLiteral_def)
  qed
qed

lemma nonDecimal_minus: "nonDecimalIntegerLiteral (CHR ''-'' # s) = None"
  by (cases s) (simp_all add: nonDecimalIntegerLiteral_def)

lemma unsigned_point:
  assumes "a \<noteq> []" "list_all isDigit a" "list_all isDigit b"
  shows "strUnsignedDecimalLiteral (a @ CHR ''.'' # b) = Fin (mantissa a b)"
proof -
  from assms(1,2) have "isDigit (hd (a @ CHR ''.'' # b))" by (cases a) simp_all
  then have "hd (a @ CHR ''.'' # b) \<noteq> CHR ''I''" using digit_not_sign by blast
  then have n: "a @ CHR ''.'' # b \<noteq> ''Infinity''" by auto
  have t: "takeWhile isDigit (a @ CHR ''.'' # b) = a"
    using assms(2) not_dot_digit by (rule takeWhile_digits)
  have d: "dropWhile isDigit (a @ CHR ''.'' # b) = CHR ''.'' # b"
    using assms(2) not_dot_digit by (rule dropWhile_digits)
  have f: "fracDigits (CHR ''.'' # b) = b" "afterFrac (CHR ''.'' # b) = []"
    using assms(3) by (simp_all add: fracDigits_def afterFrac_def takeWhile_all_digits
        dropWhile_all_digits)
  show ?thesis
    unfolding strUnsignedDecimalLiteral_def
    using n assms(1) by (simp add: t d f Let_def exponentPart_def pow10_def)
qed

lemma unsigned_int:
  assumes "m \<noteq> []" "list_all isDigit m"
  shows "strUnsignedDecimalLiteral m = Fin (of_nat (decVal m))"
proof -
  from assms have "isDigit (hd m)" by (cases m) simp_all
  then have "hd m \<noteq> CHR ''I''" using digit_not_sign by blast
  then have n: "m \<noteq> ''Infinity''" by auto
  have t: "takeWhile isDigit m = m" "dropWhile isDigit m = []"
    using assms(2) by (simp_all add: takeWhile_all_digits dropWhile_all_digits)
  show ?thesis
    unfolding strUnsignedDecimalLiteral_def
    using n assms(1)
    by (simp add: t Let_def fracDigits_def afterFrac_def exponentPart_def pow10_def
        mantissa_def decVal_Nil)
qed

lemma MV_unsigned:
  assumes "s \<noteq> []" "isDigit (hd s)" "isDigit (last s)"
    and "\<forall>c \<in> set s. isDigit c \<or> c = CHR ''.''"
  shows "StringNumericLiteralMV s = strUnsignedDecimalLiteral s"
    and "StringNumericLiteralMV (CHR ''-'' # s) = jsneg (strUnsignedDecimalLiteral s)"
proof -
  have t: "trim s = s"
    using assms(1-3) by (intro trim_id) (simp_all add: digit_not_white)
  have n: "nonDecimalIntegerLiteral s = None" using assms(4) by (rule nonDecimal_None)
  from assms(1,2) obtain c cs where s: "s = c # cs" and c: "isDigit c" by (cases s) auto
  from c have "c \<noteq> CHR ''+'' \<and> c \<noteq> CHR ''-''" using digit_not_sign by blast
  then have d: "strDecimalLiteral s = strUnsignedDecimalLiteral s"
    by (simp add: strDecimalLiteral_def s)
  show "StringNumericLiteralMV s = strUnsignedDecimalLiteral s"
    using assms(1) by (simp add: StringNumericLiteralMV_def t n d)
  have w: "\<not> isWhiteSpace (CHR ''-'')" by (simp add: isWhiteSpace_def)
  have t': "trim (CHR ''-'' # s) = CHR ''-'' # s"
    using assms(1,3) w by (intro trim_id) (simp_all add: digit_not_white)
  show "StringNumericLiteralMV (CHR ''-'' # s) = jsneg (strUnsignedDecimalLiteral s)"
    by (simp add: StringNumericLiteralMV_def t' nonDecimal_minus strDecimalLiteral_def)
qed

lemma list_all_hd_last:
  "xs \<noteq> [] \<Longrightarrow> list_all P xs \<Longrightarrow> P (hd xs) \<and> P (last xs)"
  by (simp add: list_all_iff)

lemma fixedDigits_value:
  fixes x :: rat and f :: nat
  defines "n \<equiv> nat \<lfloor>x * 10 ^ f + 1 / 2\<rfloor>"
  shows "StringNumericLiteralMV (fixedDigits f x) = Fin (of_nat n / 10 ^ f)"
    and "StringNumericLiteralMV (CHR ''-'' # fixedDigits f x) = Fin (- (of_nat n / 10 ^ f))"
proof -
  define m where "m = digitsOf n"
  have m: "m \<noteq> []" "list_all isDigit m" "decVal m = n"
    by (simp_all add: m_def digitsOf_nonempty digitsOf_digits decVal_digitsOf)
  have "StringNumericLiteralMV (fixedDigits f x) = Fin (of_nat n / 10 ^ f) \<and>
        StringNumericLiteralMV (CHR ''-'' # fixedDigits f x) = Fin (- (of_nat n / 10 ^ f))"
  proof (cases "f = 0")
    case True
    have e: "fixedDigits f x = m"
      by (simp add: fixedDigits_def True m_def n_def Let_def)
    have h: "isDigit (hd m) \<and> isDigit (last m)" using m(1,2) by (rule list_all_hd_last)
    have a: "\<forall>c \<in> set m. isDigit c \<or> c = CHR ''.''" using m(2) by (simp add: list_all_iff)
    have u: "strUnsignedDecimalLiteral m = Fin (of_nat n)"
      using unsigned_int [OF m(1,2)] by (simp add: m(3))
    show ?thesis
      unfolding e using MV_unsigned [of m] m(1) h a u by (simp add: True)
  next
    case False
    define m' where "m' = (if length m \<le> f then replicate (f + 1 - length m) (CHR ''0'') @ m else m)"
    define a where "a = take (length m' - f) m'"
    define b where "b = drop (length m' - f) m'"
    have e: "fixedDigits f x = a @ CHR ''.'' # b"
      using False by (simp add: fixedDigits_def m_def n_def m'_def a_def b_def Let_def)
    have z: "isDigit (CHR ''0'')" by (simp add: isDigit_def)
    have d': "list_all isDigit m'"
      using m(2) z by (simp add: m'_def list_all_iff)
    have v': "decVal m' = n"
      by (simp add: m'_def decVal_append decVal_zeros m(3))
    have l': "f < length m'" by (simp add: m'_def)
    have ab: "a @ b = m'" by (simp add: a_def b_def)
    have lb: "length b = f" using l' by (simp add: b_def)
    have la: "a \<noteq> []" using l' by (auto simp: a_def)
    have bn: "b \<noteq> []" using lb False by auto
    have da: "list_all isDigit a" and db: "list_all isDigit b"
      using d' unfolding ab [symmetric] by simp_all
    have val: "decVal a * 10 ^ f + decVal b = n"
      using v' unfolding ab [symmetric] by (simp add: decVal_append lb)
    let ?s = "a @ CHR ''.'' # b"
    have s1: "?s \<noteq> []" by simp
    have s2: "isDigit (hd ?s)" using la list_all_hd_last [OF la da] by simp
    have s3: "isDigit (last ?s)" using bn list_all_hd_last [OF bn db] by simp
    have s4: "\<forall>c \<in> set ?s. isDigit c \<or> c = CHR ''.''"
      using da db by (auto simp: list_all_iff)
    have "mantissa a b = of_nat (decVal a * 10 ^ f + decVal b) / 10 ^ f"
      by (simp add: mantissa_def lb add_divide_distrib)
    then have u: "strUnsignedDecimalLiteral ?s = Fin (of_nat n / 10 ^ f)"
      using unsigned_point [OF la da db] by (simp only: val)
    show ?thesis
      unfolding e using MV_unsigned [OF s1 s2 s3 s4] u by simp
  qed
  then show "StringNumericLiteralMV (fixedDigits f x) = Fin (of_nat n / 10 ^ f)"
    and "StringNumericLiteralMV (CHR ''-'' # fixedDigits f x) = Fin (- (of_nat n / 10 ^ f))"
    by simp_all
qed

text \<open>
  The text \<open>toFixed\<close> returns for a finite number below \<open>10^21\<close> denotes exactly
  that number rounded to \<open>f\<close> places; \<open>Number\<close> of the text is the double nearest
  to it.
\<close>

lemma toFixed_text:
  assumes "\<bar>x\<bar> < 10 ^ 21"
  shows "\<exists>s. toFixed f (Fin x) = Lit s \<and> StringNumericLiteralMV s = Fin (roundTo f x)"
proof (cases "x < 0")
  case True
  then have "0 \<le> (- x) * 10 ^ f" by (intro mult_nonneg_nonneg) simp_all
  then have "0 \<le> - x * 10 ^ f + 1 / 2" by simp
  then have "0 \<le> \<lfloor>- x * 10 ^ f + 1 / 2\<rfloor>" by (simp only: zero_le_floor)
  then have "of_nat (nat \<lfloor>- x * 10 ^ f + 1 / 2\<rfloor>) = (of_int \<lfloor>- x * 10 ^ f + 1 / 2\<rfloor> :: rat)"
    by simp
  with True assms show ?thesis
    using fixedDigits_value(2) [of f "- x"]
    by (simp add: toFixed_def roundTo_def)
next
  case False
  then have "0 \<le> x * 10 ^ f" by (intro mult_nonneg_nonneg) simp_all
  then have "0 \<le> x * 10 ^ f + 1 / 2" by simp
  then have "0 \<le> \<lfloor>x * 10 ^ f + 1 / 2\<rfloor>" by (simp only: zero_le_floor)
  then have "of_nat (nat \<lfloor>x * 10 ^ f + 1 / 2\<rfloor>) = (of_int \<lfloor>x * 10 ^ f + 1 / 2\<rfloor> :: rat)"
    by simp
  with False assms show ?thesis
    using fixedDigits_value(1) [of f x]
    by (simp add: toFixed_def roundTo_def)
qed

lemma round_finite:
  "NumberOfText (toFixed f (Fin x)) =
     (if 10 ^ 21 \<le> \<bar>x\<bar> then Fin x else toDouble (roundTo f x))"
proof (cases "10 ^ 21 \<le> \<bar>x\<bar>")
  case True
  then show ?thesis by (simp add: toFixed_def NumberOfText_def)
next
  case False
  then have "\<bar>x\<bar> < 10 ^ 21" by simp
  then obtain s where "toFixed f (Fin x) = Lit s" "StringNumericLiteralMV s = Fin (roundTo f x)"
    using toFixed_text by blast
  with False show ?thesis by (simp add: NumberOfText_def StringToNumber_def roundMV_def)
qed

lemma roundTo_grid: "\<exists>k::int. roundTo f x = of_int k / 10 ^ f"
proof (cases "x < 0")
  case True
  then have "roundTo f x = of_int (- \<lfloor>- x * 10 ^ f + 1 / 2\<rfloor>) / 10 ^ f"
    by (simp add: roundTo_def)
  then show ?thesis by blast
next
  case False
  then have "roundTo f x = of_int \<lfloor>x * 10 ^ f + 1 / 2\<rfloor> / 10 ^ f"
    by (simp add: roundTo_def)
  then show ?thesis by blast
qed

lemma roundTo_near: "\<bar>roundTo f x - x\<bar> * 10 ^ f \<le> 1 / 2"
proof -
  have p: "(0::rat) < 10 ^ f" by simp
  have g: "\<bar>of_int \<lfloor>y + 1 / 2\<rfloor> - y\<bar> \<le> 1 / 2" for y :: rat
    by linarith
  show ?thesis
  proof (cases "x < 0")
    case True
    have "\<bar>roundTo f x - x\<bar> * 10 ^ f = \<bar>(roundTo f x - x) * 10 ^ f\<bar>"
      by (simp add: abs_mult)
    also have "(roundTo f x - x) * 10 ^ f = - (of_int \<lfloor>- x * 10 ^ f + 1 / 2\<rfloor> - (- x * 10 ^ f))"
      using True by (simp add: roundTo_def algebra_simps)
    also have "\<bar>\<dots>\<bar> = \<bar>of_int \<lfloor>- x * 10 ^ f + 1 / 2\<rfloor> - (- x * 10 ^ f)\<bar>"
      by (rule abs_minus)
    also have "\<dots> \<le> 1 / 2" by (rule g)
    finally show ?thesis .
  next
    case False
    have "\<bar>roundTo f x - x\<bar> * 10 ^ f = \<bar>(roundTo f x - x) * 10 ^ f\<bar>"
      by (simp add: abs_mult)
    also have "(roundTo f x - x) * 10 ^ f = of_int \<lfloor>x * 10 ^ f + 1 / 2\<rfloor> - x * 10 ^ f"
      using False by (simp add: roundTo_def algebra_simps)
    also have "\<bar>\<dots>\<bar> \<le> 1 / 2" by (rule g)
    finally show ?thesis .
  qed
qed

section \<open>Precision of the equity curve\<close>

lemma toDouble_decimals:
  "toDouble (3 / 50) = Fin (1080863910568919 / 18014398509481984)"
  "toDouble (201 / 200) = Fin (1131529406376837 / 1125899906842624)"
  "toDouble (1131529406376837 / 1125899906842624) = Fin (1131529406376837 / 1125899906842624)"
  "toDouble (39 / 2500) = Fin (4496393867966703 / 288230376151711744)"
  by (simp_all add: double_defs)

lemma fineA: "length (rowsA fineDocA) = 1" "map pnl (rowsA fineDocA) = [Fin (1 / 16)]"
  by (simp_all add: fineDocA_def rowsA_def tradeOfRowA_def tradeRowA_def Number_def parse_defs)

lemma fineB: "length (rowsB fineDocB) = 1" "map pnl (rowsB fineDocB) = [Fin (1 / 64)]"
  by (simp_all add: fineDocB_def rowsB_def tradeOfRowB_def tradeRowB_def Number_def parse_defs)

lemma tieA: "length (rowsA tieDocA) = 1"
  "map pnl (rowsA tieDocA) = [Fin (1131529406376837 / 1125899906842624)]"
  by (simp_all add: tieDocA_def rowsA_def tradeOfRowA_def tradeRowA_def Number_def parse_defs
      toDouble_decimals)

lemma runningSum_single: "map pnl ts = [v] \<Longrightarrow> runningSum ts 0 = jsadd (Fin 0) v"
  by (cases ts) (simp_all add: runningSum_def)

lemma equityScan_single:
  "map pnl ts = [v] \<Longrightarrow>
   map equity (equityScan f (Fin 0) ts) = [NumberOfText (toFixed f (jsadd (Fin 0) v))]"
  by (cases ts) (simp_all add: Let_def)

lemma roundTo_samples:
  "roundTo 2 (1 / 16) = 3 / 50" "roundTo 4 (1 / 16) = 1 / 16" "roundTo 6 (1 / 16) = 1 / 16"
  "roundTo 6 (1 / 64) = 1 / 64" "roundTo 4 (1 / 64) = 39 / 2500"
  "roundTo 2 (1131529406376837 / 1125899906842624) = 1"
  by (simp_all add: roundTo_def floor_rat_numeral)

text \<open>
  C9 as the specification states it fails: in viewer A a single trade with pnl 0.0625
  has the running sum 0.0625, which is its own rounding to 4 and to 6 places, and the
  equity is the double nearest to 0.06.
\<close>

theorem equity_precision_counterexample:
  "runningSum (rowsA fineDocA) 0 = Fin (1 / 16) \<and>
   roundTo 4 (1 / 16) = 1 / 16 \<and> roundTo 6 (1 / 16) = 1 / 16 \<and>
   toDouble (1 / 16) = Fin (1 / 16) \<and>
   map equity (equityRowsA (rowsA fineDocA)) = [toDouble (3 / 50)] \<and>
   toDouble (3 / 50) \<noteq> Fin (1 / 16)"
  by (simp add: runningSum_single [OF fineA(2)] equityRowsA_def equityScan_single [OF fineA(2)]
      round_finite roundTo_samples toDouble_samples toDouble_decimals)

text \<open>
  C9, amended. The equity of every point is its running sum, computed in double
  arithmetic, rounded to a fixed number of decimal places, 2 in viewer A and 6 in
  viewer B, and stored as the nearest double, whenever that sum is finite and below
  \<open>10^21\<close> in magnitude; a rounded value is a whole number of units of that place and
  lies within half a unit of the sum. From \<open>10^21\<close> on, and for a sum that is an
  infinity or not-a-number, the equity is the sum itself.
\<close>

theorem equity_precision:
  "(\<forall>i < length ts.
      (\<forall>x. runningSum ts i = Fin x \<and> \<bar>x\<bar> < 10 ^ 21 \<longrightarrow>
         equity (equityRowsA ts ! i) = toDouble (roundTo 2 x)) \<and>
      (\<forall>x. runningSum ts i = Fin x \<and> 10 ^ 21 \<le> \<bar>x\<bar> \<longrightarrow>
         equity (equityRowsA ts ! i) = Fin x) \<and>
      (\<not> isFinite (runningSum ts i) \<longrightarrow> equity (equityRowsA ts ! i) = runningSum ts i)) \<and>
   (\<forall>i < length us.
      (\<forall>x. runningSum us i = Fin x \<and> \<bar>x\<bar> < 10 ^ 21 \<longrightarrow>
         equity (equityRowsB us ! i) = toDouble (roundTo 6 x)) \<and>
      (\<forall>x. runningSum us i = Fin x \<and> 10 ^ 21 \<le> \<bar>x\<bar> \<longrightarrow>
         equity (equityRowsB us ! i) = Fin x) \<and>
      (\<not> isFinite (runningSum us i) \<longrightarrow> equity (equityRowsB us ! i) = runningSum us i)) \<and>
   (\<exists>k::int. roundTo f y = of_int k / 10 ^ f) \<and>
   \<bar>roundTo f y - y\<bar> * 10 ^ f \<le> 1 / 2"
proof -
  have r: "\<not> isFinite v \<Longrightarrow> NumberOfText (toFixed d v) = v" for v d
    by (cases v) (simp_all add: round_NaN round_PInf round_NInf)
  have a: "\<forall>i < length ts.
      (\<forall>x. runningSum ts i = Fin x \<and> \<bar>x\<bar> < 10 ^ 21 \<longrightarrow>
         equity (equityRowsA ts ! i) = toDouble (roundTo 2 x)) \<and>
      (\<forall>x. runningSum ts i = Fin x \<and> 10 ^ 21 \<le> \<bar>x\<bar> \<longrightarrow>
         equity (equityRowsA ts ! i) = Fin x) \<and>
      (\<not> isFinite (runningSum ts i) \<longrightarrow> equity (equityRowsA ts ! i) = runningSum ts i)"
    unfolding equityRowsA_def runningSum_def
    by (simp add: equityScan_nth round_finite r)
  have b: "\<forall>i < length us.
      (\<forall>x. runningSum us i = Fin x \<and> \<bar>x\<bar> < 10 ^ 21 \<longrightarrow>
         equity (equityRowsB us ! i) = toDouble (roundTo 6 x)) \<and>
      (\<forall>x. runningSum us i = Fin x \<and> 10 ^ 21 \<le> \<bar>x\<bar> \<longrightarrow>
         equity (equityRowsB us ! i) = Fin x) \<and>
      (\<not> isFinite (runningSum us i) \<longrightarrow> equity (equityRowsB us ! i) = runningSum us i)"
    unfolding equityRowsB_def runningSum_def
    by (simp add: equityScan_nth round_finite r)
  from a b roundTo_grid [of f y] roundTo_near [of f y] show ?thesis by blast
qed

theorem equity_precision_witness:
  "0 < length (rowsA fineDocA) \<and> runningSum (rowsA fineDocA) 0 = Fin (1 / 16) \<and>
   \<bar>1 / 16 :: rat\<bar> < 10 ^ 21 \<and>
   equity (equityRowsA (rowsA fineDocA) ! 0) = toDouble (3 / 50) \<and>
   0 < length (rowsB fineDocB) \<and> runningSum (rowsB fineDocB) 0 = Fin (1 / 64) \<and>
   \<bar>1 / 64 :: rat\<bar> < 10 ^ 21 \<and>
   equity (equityRowsB (rowsB fineDocB) ! 0) = Fin (1 / 64) \<and>
   0 < length (rowsA tieDocA) \<and>
   runningSum (rowsA tieDocA) 0 = Fin (1131529406376837 / 1125899906842624) \<and>
   \<bar>1131529406376837 / 1125899906842624 :: rat\<bar> < 10 ^ 21 \<and>
   equity (equityRowsA (rowsA tieDocA) ! 0) = Fin 1 \<and>
   1 < length (rowsA badDocA) \<and> \<not> isFinite (runningSum (rowsA badDocA) 1) \<and>
   equity (equityRowsA (rowsA badDocA) ! 1) = runningSum (rowsA badDocA) 1"
proof -
  note t = equity_precision [of "rowsA fineDocA" "rowsB fineDocB" 2 0]
  note u = equity_precision [of "rowsA badDocA" "rowsB fineDocB" 2 0]
  note w = equity_precision [of "rowsA tieDocA" "rowsB fineDocB" 2 0]
  have sa: "runningSum (rowsA fineDocA) 0 = Fin (1 / 16)"
    by (simp add: runningSum_single [OF fineA(2)] toDouble_samples)
  have sb: "runningSum (rowsB fineDocB) 0 = Fin (1 / 64)"
    by (simp add: runningSum_single [OF fineB(2)] toDouble_samples)
  have sc: "runningSum (rowsA tieDocA) 0 = Fin (1131529406376837 / 1125899906842624)"
    by (simp add: runningSum_single [OF tieA(2)] toDouble_decimals)
  have h: "\<bar>1 / 16 :: rat\<bar> < 10 ^ 21" "\<bar>1 / 64 :: rat\<bar> < 10 ^ 21"
    "\<bar>1131529406376837 / 1125899906842624 :: rat\<bar> < 10 ^ 21" by simp_all
  have "1 \<le> (1::nat)" by simp
  then have nf: "runningSum (rowsA badDocA) 1 = NaN"
    using badA(1,2) by (intro runningSum_contaminated [of 1]) simp_all
  have z: "(0::nat) < 1" by simp
  from t sa h(1) have "0 < length (rowsA fineDocA) \<longrightarrow>
      equity (equityRowsA (rowsA fineDocA) ! 0) = toDouble (roundTo 2 (1 / 16))" by blast
  with z have ea: "equity (equityRowsA (rowsA fineDocA) ! 0) = toDouble (roundTo 2 (1 / 16))"
    by (simp add: fineA(1))
  from t sb h(2) have "0 < length (rowsB fineDocB) \<longrightarrow>
      equity (equityRowsB (rowsB fineDocB) ! 0) = toDouble (roundTo 6 (1 / 64))" by blast
  with z have eb: "equity (equityRowsB (rowsB fineDocB) ! 0) = toDouble (roundTo 6 (1 / 64))"
    by (simp add: fineB(1))
  from w sc h(3) have "0 < length (rowsA tieDocA) \<longrightarrow>
      equity (equityRowsA (rowsA tieDocA) ! 0) =
        toDouble (roundTo 2 (1131529406376837 / 1125899906842624))" by blast
  with z have ed: "equity (equityRowsA (rowsA tieDocA) ! 0) =
        toDouble (roundTo 2 (1131529406376837 / 1125899906842624))"
    by (simp add: tieA(1))
  from u nf have "1 < length (rowsA badDocA) \<longrightarrow>
      equity (equityRowsA (rowsA badDocA) ! 1) = runningSum (rowsA badDocA) 1"
    by (metis isFinite.simps(2))
  then have ec: "equity (equityRowsA (rowsA badDocA) ! 1) = runningSum (rowsA badDocA) 1"
    by (simp add: badA(1))
  from sa sb sc h ea eb ec ed nf show ?thesis
    by (simp add: roundTo_samples toDouble_samples fineA(1) fineB(1) tieA(1) badA(1))
qed

section \<open>The summary\<close>

lemma winRateOf_value:
  "ts \<noteq> [] \<Longrightarrow>
   winRateOf ts =
     toFixed 2 (jsmul (toDouble (of_nat (length (filter (\<lambda>t. jsgt0 (pnl t)) ts))
                                / of_nat (length ts)))
                      (Fin 100))"
  by (simp add: winRateOf_def)

lemma winRateOf_example:
  assumes "map pnl ts = [Fin 10, Fin (- 3), Fin 5, Fin (- 1)]"
  shows "winRateOf ts = Lit ''50.00''"
proof -
  from assms obtain a b c d where ts: "ts = [a, b, c, d]"
    and p: "pnl a = Fin 10" "pnl b = Fin (- 3)" "pnl c = Fin 5" "pnl d = Fin (- 1)"
    by (auto simp: map_eq_Cons_conv)
  have "winRateOf ts = toFixed 2 (Fin 50)"
    unfolding ts by (simp add: winRateOf_def p toDouble_samples)
  also have "\<dots> = Lit ''50.00''" by (simp add: fixed_defs)
  finally show ?thesis .
qed

lemma toDouble_quotients:
  "toDouble (23 / 160) = Fin (2589569785738035 / 18014398509481984)"
  "toDouble (64739244643450875 / 4503599627370496) =
     Fin (8092405580431359 / 562949953421312)"
  by (simp_all add: double_defs)

lemma winRateOf_23_of_160:
  assumes "length (filter (\<lambda>t. jsgt0 (pnl t)) ts) = 23" "length ts = 160"
  shows "winRateOf ts = Lit ''14.37''"
proof -
  have "winRateOf ts = toFixed 2 (jsmul (toDouble (23 / 160)) (Fin 100))"
    by (simp add: winRateOf_def assms)
  also have "\<dots> = toFixed 2 (Fin (8092405580431359 / 562949953421312))"
    by (simp add: toDouble_quotients)
  also have "\<dots> = Lit ''14.37''" by (simp add: fixed_defs)
  finally show ?thesis .
qed

lemma equityScan_last:
  "ts \<noteq> [] \<Longrightarrow>
   equity (last (equityScan f c ts)) =
     NumberOfText (toFixed f (foldl jsadd c (map pnl ts)))"
  by (simp add: last_conv_nth equityScan_Nil_iff equityScan_length equityScan_nth)

lemma fineB_value: "NumberOfText (Lit ''0.0156'') = toDouble (39 / 2500)"
  by (simp add: NumberOfText_def StringToNumber_def roundMV_def StringNumericLiteralMV_def
      trim_def isWhiteSpace_def isDigit_def digitVal_def decVal_def
      nonDecimalIntegerLiteral_def strDecimalLiteral_def strUnsignedDecimalLiteral_def
      fracDigits_def afterFrac_def mantissa_def exponentPart_def pow10_def)

text \<open>
  C5 as the specification states it fails: in viewer B a single trade with pnl 0.015625
  gives the last equity 0.015625 and the total 0.0156.
\<close>

theorem summary_total_counterexample:
  "renderB \<lparr> st_trades = rowsB fineDocB, st_equity = equityRowsB (rowsB fineDocB) \<rparr> =
     Inr (Dashboard \<lparr> totalTrades = 1, winRate = Lit ''100.00'', totalPnL = Lit ''0.0156'' \<rparr>) \<and>
   equity (last (equityRowsB (rowsB fineDocB))) = Fin (1 / 64) \<and>
   NumberOfText (Lit ''0.0156'') = toDouble (39 / 2500) \<and>
   toDouble (39 / 2500) \<noteq> Fin (1 / 64)"
proof -
  have n: "rowsB fineDocB \<noteq> []" using fineB(1) by auto
  have e: "map equity (equityRowsB (rowsB fineDocB)) = [Fin (1 / 64)]"
    by (simp add: equityRowsB_def equityScan_single [OF fineB(2)] round_finite roundTo_samples
        toDouble_samples)
  then obtain q where q: "equityRowsB (rowsB fineDocB) = [q]" "equity q = Fin (1 / 64)"
    by (auto simp: map_eq_Cons_conv)
  then have ne: "equityRowsB (rowsB fineDocB) \<noteq> []"
    and l: "equity (last (equityRowsB (rowsB fineDocB))) = Fin (1 / 64)"
    by simp_all
  from fineB(2) obtain t where t: "rowsB fineDocB = [t]" "pnl t = Fin (1 / 64)"
    by (auto simp: map_eq_Cons_conv)
  have w: "winRateOf (rowsB fineDocB) = Lit ''100.00''"
    unfolding t(1) by (simp add: winRateOf_def t(2) toDouble_samples fixed_defs)
  have p: "toFixed 4 (Fin (1 / 64)) = Lit ''0.0156''" by (simp add: fixed_defs)
  have d: "toDouble (39 / 2500) \<noteq> Fin (1 / 64)" by (simp add: toDouble_decimals)
  show ?thesis
    using ne d by (simp add: renderB_def renderWith_nonempty l w p fineB(1) fineB_value)
qed

text \<open>
  C5, amended. For a state whose trade and equity sequences are not empty, the summary
  shows the number of trades; the win rate, which is the count of trades with pnl above
  0 divided by the number of trades, times 100, both in double arithmetic, printed with
  2 decimals (50.00 for the pnl values 10, -3, 5, -1, and 14.37 for 23 winning trades
  of 160, where the exact quotient would print 14.38); and as total the equity of the
  last point printed by \<open>toFixed\<close>, with 2 decimals in viewer A and 4 in viewer B: a
  text that denotes that equity rounded to 2, respectively 4, places.
\<close>

theorem summary_reducer:
  "(st_trades sa \<noteq> [] \<and> st_equity sa \<noteq> [] \<longrightarrow>
      renderA sa =
        Inr (Dashboard
          \<lparr> totalTrades = length (st_trades sa),
            winRate =
              toFixed 2
                (jsmul (toDouble (of_nat (length (filter (\<lambda>t. jsgt0 (pnl t)) (st_trades sa)))
                                  / of_nat (length (st_trades sa))))
                       (Fin 100)),
            totalPnL = toFixed 2 (equity (last (st_equity sa))) \<rparr>)) \<and>
   (st_trades sb \<noteq> [] \<and> st_equity sb \<noteq> [] \<longrightarrow>
      renderB sb =
        Inr (Dashboard
          \<lparr> totalTrades = length (st_trades sb),
            winRate =
              toFixed 2
                (jsmul (toDouble (of_nat (length (filter (\<lambda>t. jsgt0 (pnl t)) (st_trades sb)))
                                  / of_nat (length (st_trades sb))))
                       (Fin 100)),
            totalPnL = toFixed 4 (equity (last (st_equity sb))) \<rparr>)) \<and>
   (map pnl (st_trades sa) = [Fin 10, Fin (- 3), Fin 5, Fin (- 1)] \<longrightarrow>
      winRateOf (st_trades sa) = Lit ''50.00'') \<and>
   (map pnl (st_trades sb) = [Fin 10, Fin (- 3), Fin 5, Fin (- 1)] \<longrightarrow>
      winRateOf (st_trades sb) = Lit ''50.00'') \<and>
   (length (filter (\<lambda>t. jsgt0 (pnl t)) (st_trades sb)) = 23 \<and> length (st_trades sb) = 160 \<longrightarrow>
      winRateOf (st_trades sb) = Lit ''14.37'') \<and>
   (\<forall>x. \<bar>x\<bar> < 10 ^ 21 \<longrightarrow>
      (\<exists>s. toFixed 2 (Fin x) = Lit s \<and> StringNumericLiteralMV s = Fin (roundTo 2 x)) \<and>
      (\<exists>s. toFixed 4 (Fin x) = Lit s \<and> StringNumericLiteralMV s = Fin (roundTo 4 x)))"
proof -
  have a: "st_trades sa \<noteq> [] \<and> st_equity sa \<noteq> [] \<longrightarrow>
      renderA sa =
        Inr (Dashboard
          \<lparr> totalTrades = length (st_trades sa),
            winRate =
              toFixed 2
                (jsmul (toDouble (of_nat (length (filter (\<lambda>t. jsgt0 (pnl t)) (st_trades sa)))
                                  / of_nat (length (st_trades sa))))
                       (Fin 100)),
            totalPnL = toFixed 2 (equity (last (st_equity sa))) \<rparr>)"
    by (simp add: renderA_def renderWith_nonempty winRateOf_value)
  have b: "st_trades sb \<noteq> [] \<and> st_equity sb \<noteq> [] \<longrightarrow>
      renderB sb =
        Inr (Dashboard
          \<lparr> totalTrades = length (st_trades sb),
            winRate =
              toFixed 2
                (jsmul (toDouble (of_nat (length (filter (\<lambda>t. jsgt0 (pnl t)) (st_trades sb)))
                                  / of_nat (length (st_trades sb))))
                       (Fin 100)),
            totalPnL = toFixed 4 (equity (last (st_equity sb))) \<rparr>)"
    by (simp add: renderB_def renderWith_nonempty winRateOf_value)
  have c: "\<forall>x. \<bar>x\<bar> < 10 ^ 21 \<longrightarrow>
      (\<exists>s. toFixed 2 (Fin x) = Lit s \<and> StringNumericLiteralMV s = Fin (roundTo 2 x)) \<and>
      (\<exists>s. toFixed 4 (Fin x) = Lit s \<and> StringNumericLiteralMV s = Fin (roundTo 4 x))"
    using toFixed_text by blast
  have d: "length (filter (\<lambda>t. jsgt0 (pnl t)) (st_trades sb)) = 23 \<and> length (st_trades sb) = 160 \<longrightarrow>
      winRateOf (st_trades sb) = Lit ''14.37''"
    by (simp add: winRateOf_23_of_160)
  have e: "map pnl (st_trades sa) = [Fin 10, Fin (- 3), Fin 5, Fin (- 1)] \<longrightarrow>
      winRateOf (st_trades sa) = Lit ''50.00''"
    "map pnl (st_trades sb) = [Fin 10, Fin (- 3), Fin 5, Fin (- 1)] \<longrightarrow>
      winRateOf (st_trades sb) = Lit ''50.00''"
    by (simp_all add: winRateOf_example)
  from a b c d e show ?thesis by blast
qed

lemma fourA: "length (rowsA fourDocA) = 4"
  "map pnl (rowsA fourDocA) = [Fin 10, Fin (- 3), Fin 5, Fin (- 1)]"
  by (simp_all add: fourDocA_def rowsA_def tradeOfRowA_def tradeRowA_def Number_def parse_defs)

lemma fourB: "length (rowsB fourDocB) = 4"
  "map pnl (rowsB fourDocB) = [Fin 10, Fin (- 3), Fin 5, Fin (- 1)]"
  by (simp_all add: fourDocB_def rowsB_def tradeOfRowB_def tradeRowB_def Number_def parse_defs)

lemma bigB: "length (rowsB bigDocB) = 160"
  "length (filter (\<lambda>t. jsgt0 (pnl t)) (rowsB bigDocB)) = 23"
proof -
  have p: "pnl (tradeOfRowB (tradeRowB ''1'')) = Fin 1"
    "pnl (tradeOfRowB (tradeRowB ''-1'')) = Fin (- 1)"
    by (simp_all add: tradeOfRowB_def tradeRowB_def Number_def parse_defs)
  show "length (rowsB bigDocB) = 160" by (simp add: rowsB_def bigDocB_def)
  show "length (filter (\<lambda>t. jsgt0 (pnl t)) (rowsB bigDocB)) = 23"
    by (simp add: rowsB_def bigDocB_def p)
qed

lemma count_wins:
  "length (filter (\<lambda>t. jsgt0 (pnl t)) ts) = length (filter jsgt0 (map pnl ts))"
  by (induction ts) simp_all

lemma toFixed_samples:
  "toFixed 2 (Fin 50) = Lit ''50.00''" "toFixed 2 (Fin 11) = Lit ''11.00''"
  "toFixed 4 (Fin 11) = Lit ''11.0000''" "toFixed 4 (Fin (1 / 64)) = Lit ''0.0156''"
  by (simp_all add: fixed_defs)

theorem summary_reducer_witness:
  "rowsA fourDocA \<noteq> [] \<and> equityRowsA (rowsA fourDocA) \<noteq> [] \<and>
   map pnl (rowsA fourDocA) = [Fin 10, Fin (- 3), Fin 5, Fin (- 1)] \<and>
   renderA \<lparr> st_trades = rowsA fourDocA, st_equity = equityRowsA (rowsA fourDocA) \<rparr> =
     Inr (Dashboard \<lparr> totalTrades = 4, winRate = Lit ''50.00'', totalPnL = Lit ''11.00'' \<rparr>) \<and>
   winRateOf (rowsA fourDocA) = Lit ''50.00'' \<and>
   rowsB fourDocB \<noteq> [] \<and> equityRowsB (rowsB fourDocB) \<noteq> [] \<and>
   map pnl (rowsB fourDocB) = [Fin 10, Fin (- 3), Fin 5, Fin (- 1)] \<and>
   renderB \<lparr> st_trades = rowsB fourDocB, st_equity = equityRowsB (rowsB fourDocB) \<rparr> =
     Inr (Dashboard \<lparr> totalTrades = 4, winRate = Lit ''50.00'', totalPnL = Lit ''11.0000'' \<rparr>) \<and>
   winRateOf (rowsB fourDocB) = Lit ''50.00'' \<and>
   length (filter (\<lambda>t. jsgt0 (pnl t)) (rowsB bigDocB)) = 23 \<and>
   length (rowsB bigDocB) = 160 \<and>
   winRateOf (rowsB bigDocB) = Lit ''14.37'' \<and>
   \<bar>1 / 64 :: rat\<bar> < 10 ^ 21 \<and>
   toFixed 4 (Fin (1 / 64)) = Lit ''0.0156'' \<and>
   StringNumericLiteralMV ''0.0156'' = Fin (roundTo 4 (1 / 64))"
proof -
  let ?sa = "\<lparr> st_trades = rowsA fourDocA, st_equity = equityRowsA (rowsA fourDocA) \<rparr>"
  let ?sb = "\<lparr> st_trades = rowsB fourDocB, st_equity = equityRowsB (rowsB fourDocB) \<rparr>"
  let ?sc = "\<lparr> st_trades = rowsB bigDocB, st_equity = equityRowsB (rowsB bigDocB) \<rparr>"
  note t = summary_reducer [of ?sa ?sb]
  note u = summary_reducer [of ?sa ?sc]
  have nea: "rowsA fourDocA \<noteq> []" and neb: "rowsB fourDocB \<noteq> []"
    using fourA(1) fourB(1) by auto
  then have qa: "equityRowsA (rowsA fourDocA) \<noteq> []" and qb: "equityRowsB (rowsB fourDocB) \<noteq> []"
    unfolding equityRowsA_def equityRowsB_def
    by (simp_all only: equityScan_Nil_iff not_False_eq_True)
  have r: "roundTo 2 11 = 11" "roundTo 6 11 = 11"
    by (simp_all add: roundTo_def floor_rat_numeral)
  have la: "equity (last (equityRowsA (rowsA fourDocA))) = Fin 11"
    using nea
    by (simp add: equityRowsA_def equityScan_last fourA(2) round_finite r toDouble_samples)
  have lb: "equity (last (equityRowsB (rowsB fourDocB))) = Fin 11"
    using neb
    by (simp add: equityRowsB_def equityScan_last fourB(2) round_finite r toDouble_samples)
  have ca: "length (filter (\<lambda>t. jsgt0 (pnl t)) (rowsA fourDocA)) = 2"
    by (simp add: count_wins fourA(2))
  have cb: "length (filter (\<lambda>t. jsgt0 (pnl t)) (rowsB fourDocB)) = 2"
    by (simp add: count_wins fourB(2))
  have h: "\<bar>1 / 64 :: rat\<bar> < 10 ^ 21" by simp
  from t nea qa have ra: "renderA ?sa =
      Inr (Dashboard \<lparr> totalTrades = 4, winRate = Lit ''50.00'', totalPnL = Lit ''11.00'' \<rparr>)"
    by (simp add: ca la fourA(1) toDouble_samples toFixed_samples)
  from t neb qb have rb: "renderB ?sb =
      Inr (Dashboard \<lparr> totalTrades = 4, winRate = Lit ''50.00'', totalPnL = Lit ''11.0000'' \<rparr>)"
    by (simp add: cb lb fourB(1) toDouble_samples toFixed_samples)
  from t fourA(2) have wa: "winRateOf (rowsA fourDocA) = Lit ''50.00''" by simp
  from t fourB(2) have wb: "winRateOf (rowsB fourDocB) = Lit ''50.00''" by simp
  from u bigB have wc: "winRateOf (rowsB bigDocB) = Lit ''14.37''" by simp
  from t h obtain s where "toFixed 4 (Fin (1 / 64)) = Lit s"
      "StringNumericLiteralMV s = Fin (roundTo 4 (1 / 64))"
    by blast
  then have mv: "StringNumericLiteralMV ''0.0156'' = Fin (roundTo 4 (1 / 64))"
    by (simp add: toFixed_samples)
  from nea neb qa qb ra rb wa wb wc mv h fourA(2) fourB(2) bigB toFixed_samples(4)
  show ?thesis by blast
qed

end
